theory Spec2Isabelle
  imports Main
begin

section \<open>Source locations and the lexer's token list\<close>

text \<open>
  The lexer of graphql-js links its tokens into a doubly linked list (\<open>prev\<close>,
  \<open>next\<close>); comments are tokens of that list.  \<open>getDescription\<close> reads, of a
  token, its \<open>kind\<close>, its \<open>line\<close> and its \<open>value\<close>, and only ever compares the
  kind with \<open>TokenKind.COMMENT\<close>.
\<close>

datatype token_kind = SOF | EOF | COMMENT | PUNCTUATOR | NAME | LITERAL

record token =
  kind :: token_kind
  line :: nat
  tok_value :: string

text \<open>
  A \<open>Location\<close>: its character offsets and its \<open>startToken\<close>.  The linked list
  before the start token is kept as a zipper: \<open>prevTokens\<close> is the chain
  \<open>startToken.prev\<close>, \<open>startToken.prev.prev\<close>, ... (nearest token first); the
  \<open>next\<close> of each token of the chain is the token the walk came from.
\<close>

record location =
  loc_start :: nat
  loc_end :: nat
  prevTokens :: "token list"
  startToken :: token

section \<open>Description extraction\<close>

text \<open>\<open>leadingSpaces\<close>: the number of spaces on the starting side of a string.\<close>

fun leadingSpaces :: "string \<Rightarrow> nat" where
  "leadingSpaces [] = 0"
| "leadingSpaces (c # cs) = (if c \<noteq> CHR '' '' then 0 else Suc (leadingSpaces cs))"

text \<open>
  The \<open>while\<close> loop of \<open>getDescription\<close>.  The first argument is the chain from
  \<open>token\<close> backwards (empty when \<open>token\<close> is null), the second is \<open>token.next\<close>
  (never null on this walk: it is the token the walk came from, at first the start
  token); \<open>loop_condition\<close> is the condition of the \<open>while\<close> for a non-null
  \<open>token\<close>, whose \<open>prev\<close> chain is \<open>prevs\<close>.  \<open>comments\<close> grows by \<open>push\<close>,
  \<open>minSpaces\<close> starts undefined (\<open>None\<close>).
\<close>

definition loop_condition :: "token \<Rightarrow> token list \<Rightarrow> token \<Rightarrow> bool" where
  "loop_condition tok prevs nxt \<longleftrightarrow>
     kind tok = COMMENT \<and> prevs \<noteq> [] \<and>
     line tok + 1 = line nxt \<and> line tok \<noteq> line (hd prevs)"

fun comment_loop :: "token list \<Rightarrow> token \<Rightarrow> string list \<Rightarrow> nat option
    \<Rightarrow> string list \<times> nat option" where
  "comment_loop [] nxt comments minSpaces = (comments, minSpaces)"
| "comment_loop (tok # prevs) nxt comments minSpaces =
     (if loop_condition tok prevs nxt
      then
        (let spaces = leadingSpaces (tok_value tok) in
         comment_loop prevs tok (comments @ [tok_value tok])
           (case minSpaces of
              None \<Rightarrow> Some spaces
            | Some m \<Rightarrow> if spaces < m then Some spaces else Some m))
      else (comments, minSpaces))"

text \<open>\<open>Array.prototype.join\<close> with a line feed as separator.\<close>

fun join_lines :: "string list \<Rightarrow> string" where
  "join_lines [] = []"
| "join_lines [s] = s"
| "join_lines (s # t # ss) = s @ [CHR 0x0A] @ join_lines (t # ss)"

text \<open>
  \<open>String.prototype.slice\<close> with one argument; \<open>slice(undefined)\<close> is \<open>slice(0)\<close>.
\<close>

definition slice_from :: "nat option \<Rightarrow> string \<Rightarrow> string" where
  "slice_from minSpaces s = (case minSpaces of None \<Rightarrow> s | Some n \<Rightarrow> drop n s)"

text \<open>
  \<open>getDescription(node)\<close>, applied to \<open>node.loc\<close>; \<open>None\<close> is the JavaScript
  \<open>null\<close>.
\<close>

definition getDescription :: "location option \<Rightarrow> string option" where
  "getDescription loc =
     (case loc of
        None \<Rightarrow> None
      | Some l \<Rightarrow>
          (case comment_loop (prevTokens l) (startToken l) [] None of
             (comments, minSpaces) \<Rightarrow>
               Some (join_lines (map (slice_from minSpaces) (rev comments)))))"

section \<open>The document\<close>

text \<open>
  The nodes of \<open>graphql/language/ast\<close>, with the members \<open>buildASTSchema\<close> reads.
  A member declared optional (\<open>loc?\<close>, \<open>interfaces?\<close>, \<open>arguments?\<close>,
  \<open>directives?\<close>, \<open>defaultValue?\<close>) is an \<open>option\<close>.
\<close>

record name_node =
  name_value :: string
  name_loc :: "location option"

record named_type_node =
  nt_name :: name_node
  nt_loc :: "location option"

datatype type_node =
    NamedType named_type_node
  | ListType type_node
  | NonNullType type_node

datatype value_node =
    Variable string
  | IntValue string
  | FloatValue string
  | StringValue string
  | BooleanValue bool
  | NullValue
  | EnumValue string
  | ListValue "value_node list"
  | ObjectValue "(string \<times> value_node) list"

record argument_node =
  arg_name :: name_node
  arg_value :: value_node

record directive_node =
  dir_name :: name_node
  dir_arguments :: "argument_node list option"

record input_value_node =
  iv_name :: name_node
  iv_type :: type_node
  iv_defaultValue :: "value_node option"
  iv_loc :: "location option"

record field_node =
  f_name :: name_node
  f_arguments :: "input_value_node list"
  f_type :: type_node
  f_directives :: "directive_node list option"
  f_loc :: "location option"

record enum_value_node =
  ev_name :: name_node
  ev_directives :: "directive_node list option"
  ev_loc :: "location option"

datatype type_def =
    ScalarTypeDefinition name_node "location option"
  | ObjectTypeDefinition name_node "named_type_node list option" "field_node list"
      "location option"
  | InterfaceTypeDefinition name_node "field_node list" "location option"
  | EnumTypeDefinition name_node "enum_value_node list" "location option"
  | UnionTypeDefinition name_node "named_type_node list" "location option"
  | InputObjectTypeDefinition name_node "input_value_node list" "location option"

fun def_name :: "type_def \<Rightarrow> name_node" where
  "def_name (ScalarTypeDefinition n l) = n"
| "def_name (ObjectTypeDefinition n is fs l) = n"
| "def_name (InterfaceTypeDefinition n fs l) = n"
| "def_name (EnumTypeDefinition n vs l) = n"
| "def_name (UnionTypeDefinition n ts l) = n"
| "def_name (InputObjectTypeDefinition n fs l) = n"

fun def_loc :: "type_def \<Rightarrow> location option" where
  "def_loc (ScalarTypeDefinition n l) = l"
| "def_loc (ObjectTypeDefinition n is fs l) = l"
| "def_loc (InterfaceTypeDefinition n fs l) = l"
| "def_loc (EnumTypeDefinition n vs l) = l"
| "def_loc (UnionTypeDefinition n ts l) = l"
| "def_loc (InputObjectTypeDefinition n fs l) = l"

record operation_type_node =
  operation :: string
  op_type :: named_type_node

record schema_def =
  operationTypes :: "operation_type_node list"
  schema_loc :: "location option"

record directive_def =
  dd_name :: name_node
  dd_arguments :: "input_value_node list option"
  dd_locations :: "name_node list"
  dd_loc :: "location option"

text \<open>
  A definition of a document.  \<open>OtherDefinition\<close> stands for the kinds the
  \<open>switch\<close> of \<open>buildASTSchema\<close> sends to its empty \<open>default\<close> branch
  (operations, fragments, type extensions).
\<close>

datatype definition_node =
    SchemaDefinition schema_def
  | TypeDefinition type_def
  | DirectiveDefinition directive_def
  | OtherDefinition

text \<open>
  The argument of \<open>buildASTSchema\<close>: a node of kind \<open>DOCUMENT\<close> with its
  definitions, or anything else (a null, a node of another kind).
\<close>

datatype ast = Document "definition_node list" | NotDocument

text \<open>
  Modelled from the spec: \<open>getNamedTypeNode\<close> (\<open>./getNamedTypeNode\<close>) is not among the
  sources.  Spec 4.3: it <<recursively strips list/non-null modifiers to find the
  innermost name>>.
\<close>

fun getNamedTypeNode :: "type_node \<Rightarrow> named_type_node" where
  "getNamedTypeNode (NamedType n) = n"
| "getNamedTypeNode (ListType t) = getNamedTypeNode t"
| "getNamedTypeNode (NonNullType t) = getNamedTypeNode t"

section \<open>Resolved types\<close>

text \<open>
  A named type is an object with an identity, and the claims about sharing depend on it,
  so a resolved type refers to a named type by reference:
  \<^item> \<open>Builtin n\<close>: the shared singleton of graphql-js of that name (the five scalars
    and the eight introspection types \<open>innerTypeMap\<close> is initialised with);
  \<^item> \<open>Inherited k\<close>: the member \<open>k\<close> that an object literal inherits from
    \<open>Object.prototype\<close> (a function or an object, not a type);
  \<^item> \<open>Placeholder k\<close>: the member \<open>k\<close> of \<open>PLACEHOLDER_TYPES\<close>;
  \<^item> \<open>Instance a\<close>: the object a builder of this call allocated at address \<open>a\<close> of
    the store.
\<close>

datatype ph_kind = inputType | outputType | objectType | interfaceType

datatype named_ref =
    Builtin string
  | Inherited string
  | Placeholder ph_kind
  | Instance nat

datatype gql_type =
    Named named_ref
  | GraphQLList gql_type
  | GraphQLNonNull gql_type

datatype js_error =
    Error string
  | TypeError string
  | RangeError string
  | LibraryError string

section \<open>Diagnostics\<close>

datatype severity = SEVERITY_error | SEVERITY_warning

text \<open>
  The nodes a diagnostic is given.  \<open>getObjectType\<close> passes
  \<open>PLACEHOLDER_TYPES.objectType\<close> where \<open>typeDefNamed\<close> expects a node.
\<close>

datatype ast_node =
    SchemaNode schema_def
  | TypeDefNode type_def
  | NameNode name_node
  | NamedTypeNode named_type_node
  | PlaceholderNode ph_kind

record gql_error =
  message :: string
  nodes :: "ast_node list option"
  severity :: severity

text \<open>
  Modelled from the spec: \<open>newGQLError\<close> (\<open>./GQLError\<close>) and \<open>SEVERITY\<close>
  (\<open>../constants\<close>) are not among the sources.  Spec 6: a diagnostic is
  <<{ message: string, locations: sequence<SourceLocation> (0, 1, or many), severity:
  error|warning }>>; the locations are kept as the nodes given (\<open>null\<close> is \<open>None\<close>).
\<close>

definition newGQLError :: "string \<Rightarrow> ast_node list option \<Rightarrow> severity \<Rightarrow> gql_error" where
  "newGQLError msg ns sev = \<lparr>message = msg, nodes = ns, severity = sev\<rparr>"

definition quoted :: "string \<Rightarrow> string" where
  "quoted s = [CHR 0x22] @ s @ [CHR 0x22]"

section \<open>The objects the builders make\<close>

datatype js_value = JSUndefined | JSNull | JSString string | JSCoerced value_node

text \<open>
  A JavaScript object used as a dictionary: its own keys in the order of their first
  insertion, a later assignment to a key replacing the value in place.
\<close>

type_synonym 'a js_object = "(string \<times> 'a) list"

fun obj_set :: "string \<Rightarrow> 'a \<Rightarrow> 'a js_object \<Rightarrow> 'a js_object" where
  "obj_set k v [] = [(k, v)]"
| "obj_set k v ((k', v') # kvs) =
     (if k = k' then (k, v) # kvs else (k', v') # obj_set k v kvs)"

text \<open>
  \<open>keyValMap\<close> of \<open>graphql/jsutils\<close>, applied to the keys and values of the items:
  \<open>list.reduce((map, item) => (map[keyFn(item)] = valFn(item), map), {})\<close>.  The
  map starts as an object literal, so the assignment to the key \<open>__proto__\<close> (every
  value here is an object) sets the prototype of the map and makes no own property.
\<close>

definition keyValMap :: "(string \<times> 'a) list \<Rightarrow> 'a js_object" where
  "keyValMap kvs =
     foldl (\<lambda>m kv. if fst kv = ''__proto__'' then m else obj_set (fst kv) (snd kv) m) [] kvs"

record input_value =
  in_type :: gql_type
  in_node :: "input_value_node option"
  in_description :: "string option"
  in_defaultValue :: js_value

record field_def =
  fd_type :: gql_type
  fd_node :: field_node
  fd_description :: "string option"
  fd_args :: "input_value js_object"
  fd_deprecationReason :: js_value

record enum_value_def =
  evd_description :: "string option"
  evd_deprecationReason :: js_value
  evd_node :: enum_value_node

text \<open>
  A member given to a type of graphql-js as a function (\<open>fields: () => ...\<close>) is
  called on first access and its result kept (\<open>this._fields || (this._fields = ...)\<close>).
\<close>

datatype 'a thunk = Deferred | Forced 'a

text \<open>
  The instances of the classes of \<open>graphql/type/definition\<close>, with what the builders
  give them: name, node, description and, by class, fields and interfaces, member
  types, enum values, input fields.  \<open>makeEnumDef\<close> gives no node; \<open>typeDefNamed\<close>
  sets \<open>node\<close> on every instance afterwards.
\<close>

datatype named_type =
    GraphQLObjectType string "type_def option" "string option"
      "field_def js_object thunk" "gql_type list option thunk"
  | GraphQLInterfaceType string "type_def option" "string option"
      "field_def js_object thunk"
  | GraphQLUnionType string "type_def option" "string option" "gql_type list"
  | GraphQLEnumType string "type_def option" "string option" "enum_value_def js_object"
  | GraphQLScalarType string "type_def option" "string option"
  | GraphQLInputObjectType string "type_def option" "string option"
      "input_value js_object thunk"

fun type_name :: "named_type \<Rightarrow> string" where
  "type_name (GraphQLObjectType n d desc fs is) = n"
| "type_name (GraphQLInterfaceType n d desc fs) = n"
| "type_name (GraphQLUnionType n d desc ts) = n"
| "type_name (GraphQLEnumType n d desc vs) = n"
| "type_name (GraphQLScalarType n d desc) = n"
| "type_name (GraphQLInputObjectType n d desc fs) = n"

fun set_node :: "type_def \<Rightarrow> named_type \<Rightarrow> named_type" where
  "set_node nd (GraphQLObjectType n d desc fs is) = GraphQLObjectType n (Some nd) desc fs is"
| "set_node nd (GraphQLInterfaceType n d desc fs) = GraphQLInterfaceType n (Some nd) desc fs"
| "set_node nd (GraphQLUnionType n d desc ts) = GraphQLUnionType n (Some nd) desc ts"
| "set_node nd (GraphQLEnumType n d desc vs) = GraphQLEnumType n (Some nd) desc vs"
| "set_node nd (GraphQLScalarType n d desc) = GraphQLScalarType n (Some nd) desc"
| "set_node nd (GraphQLInputObjectType n d desc fs) = GraphQLInputObjectType n (Some nd) desc fs"

datatype gql_class =
    ScalarClass | ObjectClass | InterfaceClass | UnionClass | EnumClass | InputObjectClass
  | NotAType

fun class_of_instance :: "named_type \<Rightarrow> gql_class" where
  "class_of_instance (GraphQLObjectType n d desc fs is) = ObjectClass"
| "class_of_instance (GraphQLInterfaceType n d desc fs) = InterfaceClass"
| "class_of_instance (GraphQLUnionType n d desc ts) = UnionClass"
| "class_of_instance (GraphQLEnumType n d desc vs) = EnumClass"
| "class_of_instance (GraphQLScalarType n d desc) = ScalarClass"
| "class_of_instance (GraphQLInputObjectType n d desc fs) = InputObjectClass"

text \<open>
  A directive is an object with an identity: one of the objects that
  \<open>graphql/type/directives\<close> exports (by its name), or the object the call of
  \<open>new GraphQLDirective\<close> in \<open>getDirective\<close> made for a definition node.  Its
  \<open>args\<close> is an array, here the arguments with their names, in order.
\<close>

datatype directive_object = SpecifiedDirective string | ConstructedDirective directive_def

record gql_directive =
  d_object :: directive_object
  d_name :: string
  d_description :: "string option"
  d_locations :: "string list"
  d_args :: "input_value js_object"

text \<open>
  The configuration \<open>buildASTSchema\<close> gives to \<open>new GraphQLSchema\<close>, and the schema:
  the configuration, the objects it refers to (the store, by address) and the
  \<open>_errors\<close> of the schema.
\<close>

record schema_config =
  query :: "named_ref option"
  mutation :: "named_ref option"
  subscription :: "named_ref option"
  types :: "named_ref list"
  directives :: "gql_directive list"
  config_nodeMap :: "type_def js_object"

record gql_schema = schema_config +
  schema_store :: "named_type list"
  schema_errors :: "gql_error list"

section \<open>What the sources import\<close>

text \<open>
  Parameters of the model, for what \<open>buildASTSchema.js\<close> imports and the sources do not
  hold:
  \<^item> \<open>placeholder_class\<close>: the class of each member of \<open>PLACEHOLDER_TYPES\<close>
    (\<open>../constants\<close>);
  \<^item> \<open>valueFromAST\<close> (\<open>graphql/utilities/valueFromAST\<close>) and \<open>getArgumentValues\<close>
    (\<open>graphql/execution/values\<close>), which may throw;
  \<^item> \<open>GraphQLSchema_errors\<close>: the \<open>_errors\<close> the constructor of \<open>./GraphQLSchema\<close>
    leaves on the schema, from its configuration and the objects reachable from it.
\<close>

record env =
  placeholder_class :: "ph_kind \<Rightarrow> gql_class"
  valueFromAST :: "value_node option \<Rightarrow> gql_type \<Rightarrow> js_error + js_value"
  getArgumentValues :: "gql_directive \<Rightarrow> directive_node \<Rightarrow> js_error + js_value js_object"
  GraphQLSchema_errors :: "schema_config \<Rightarrow> named_type list \<Rightarrow> gql_error list"

text \<open>
  The built-in directives of \<open>graphql/type/directives\<close> (their description texts left
  out).
\<close>

definition GraphQLSkipDirective :: gql_directive where
  "GraphQLSkipDirective =
     \<lparr>d_object = SpecifiedDirective ''skip'', d_name = ''skip'', d_description = None,
      d_locations = [''FIELD'', ''FRAGMENT_SPREAD'', ''INLINE_FRAGMENT''],
      d_args = [(''if'',
        \<lparr>in_type = GraphQLNonNull (Named (Builtin ''Boolean'')), in_node = None,
         in_description = Some ''Skipped when true.'', in_defaultValue = JSUndefined\<rparr>)]\<rparr>"

definition GraphQLIncludeDirective :: gql_directive where
  "GraphQLIncludeDirective =
     \<lparr>d_object = SpecifiedDirective ''include'', d_name = ''include'', d_description = None,
      d_locations = [''FIELD'', ''FRAGMENT_SPREAD'', ''INLINE_FRAGMENT''],
      d_args = [(''if'',
        \<lparr>in_type = GraphQLNonNull (Named (Builtin ''Boolean'')), in_node = None,
         in_description = Some ''Included when true.'', in_defaultValue = JSUndefined\<rparr>)]\<rparr>"

definition GraphQLDeprecatedDirective :: gql_directive where
  "GraphQLDeprecatedDirective =
     \<lparr>d_object = SpecifiedDirective ''deprecated'', d_name = ''deprecated'',
      d_description = None,
      d_locations = [''FIELD_DEFINITION'', ''ENUM_VALUE''],
      d_args = [(''reason'',
        \<lparr>in_type = Named (Builtin ''String''), in_node = None,
         in_description = None, in_defaultValue = JSString ''No longer supported''\<rparr>)]\<rparr>"

section \<open>The state of one call\<close>

text \<open>
  What the closures of one call of \<open>buildASTSchema\<close> share and change: the array
  \<open>errors\<close>, the own properties of \<open>innerTypeMap\<close>, and the store of the objects the
  builders allocate (an address is an index of the store).
\<close>

record build_state =
  errors :: "gql_error list"
  innerTypeMap :: "named_ref js_object"
  store :: "named_type list"

type_synonym 'a res = "js_error + 'a \<times> build_state"

definition bind_res :: "'a res \<Rightarrow> ('a \<Rightarrow> build_state \<Rightarrow> 'b res) \<Rightarrow> 'b res" where
  "bind_res r f = (case r of Inl e \<Rightarrow> Inl e | Inr (x, st) \<Rightarrow> f x st)"

definition lift_res :: "js_error + 'a \<Rightarrow> build_state \<Rightarrow> 'a res" where
  "lift_res r st = (case r of Inl e \<Rightarrow> Inl e | Inr x \<Rightarrow> Inr (x, st))"

definition push_error :: "gql_error \<Rightarrow> build_state \<Rightarrow> build_state" where
  "push_error e st = st\<lparr>errors := errors st @ [e]\<rparr>"

text \<open>\<open>Array.prototype.map\<close> with a callback that changes the state and may throw.\<close>

fun map_res :: "('a \<Rightarrow> build_state \<Rightarrow> 'b res) \<Rightarrow> 'a list \<Rightarrow> build_state \<Rightarrow> 'b list res" where
  "map_res f [] st = Inr ([], st)"
| "map_res f (x # xs) st =
     bind_res (f x st) (\<lambda>y st1.
     bind_res (map_res f xs st1) (\<lambda>ys st2. Inr (y # ys, st2)))"

text \<open>
  \<open>innerTypeMap\<close> is an object literal, so \<open>innerTypeMap[typeName]\<close> finds an own
  property or else a member inherited from \<open>Object.prototype\<close> (all of them functions
  or objects, hence truthy).  \<open>nodeMap\<close> and \<open>nodeMapWithAllReferences\<close> are made by
  \<open>Object.create(null)\<close> and inherit nothing.
\<close>

definition Object_prototype_keys :: "string list" where
  "Object_prototype_keys =
     [''constructor'', ''__defineGetter__'', ''__defineSetter__'', ''hasOwnProperty'',
      ''__lookupGetter__'', ''__lookupSetter__'', ''isPrototypeOf'',
      ''propertyIsEnumerable'', ''toString'', ''valueOf'', ''__proto__'',
      ''toLocaleString'']"

definition builtin_type_names :: "string list" where
  "builtin_type_names =
     [''String'', ''Int'', ''Float'', ''Boolean'', ''ID'', ''__Schema'', ''__Directive'',
      ''__DirectiveLocation'', ''__Type'', ''__Field'', ''__InputValue'', ''__EnumValue'',
      ''__TypeKind'']"

definition initial_innerTypeMap :: "named_ref js_object" where
  "initial_innerTypeMap = map (\<lambda>n. (n, Builtin n)) builtin_type_names"

definition innerTypeMap_get :: "named_ref js_object \<Rightarrow> string \<Rightarrow> named_ref option" where
  "innerTypeMap_get m k =
     (case map_of m k of
        Some r \<Rightarrow> Some r
      | None \<Rightarrow> if k \<in> set Object_prototype_keys then Some (Inherited k) else None)"

subsection \<open>Class tests\<close>

definition builtin_class :: "string \<Rightarrow> gql_class" where
  "builtin_class n =
     (if n \<in> set [''String'', ''Int'', ''Float'', ''Boolean'', ''ID''] then ScalarClass
      else if n \<in> set [''__DirectiveLocation'', ''__TypeKind''] then EnumClass
      else if n \<in> set builtin_type_names then ObjectClass
      else NotAType)"

fun class_of :: "env \<Rightarrow> named_type list \<Rightarrow> named_ref \<Rightarrow> gql_class" where
  "class_of env objs (Builtin n) = builtin_class n"
| "class_of env objs (Inherited k) = NotAType"
| "class_of env objs (Placeholder k) = placeholder_class env k"
| "class_of env objs (Instance a) =
     (if a < length objs then class_of_instance (objs ! a) else NotAType)"

fun getNamedType :: "gql_type \<Rightarrow> named_ref" where
  "getNamedType (Named r) = r"
| "getNamedType (GraphQLList t) = getNamedType t"
| "getNamedType (GraphQLNonNull t) = getNamedType t"

definition isInputType :: "env \<Rightarrow> named_type list \<Rightarrow> gql_type \<Rightarrow> bool" where
  "isInputType env objs t \<longleftrightarrow>
     class_of env objs (getNamedType t) \<in> {ScalarClass, EnumClass, InputObjectClass}"

definition isOutputType :: "env \<Rightarrow> named_type list \<Rightarrow> gql_type \<Rightarrow> bool" where
  "isOutputType env objs t \<longleftrightarrow>
     class_of env objs (getNamedType t) \<in>
       {ScalarClass, ObjectClass, InterfaceClass, UnionClass, EnumClass}"

fun instanceof :: "env \<Rightarrow> named_type list \<Rightarrow> gql_type \<Rightarrow> gql_class \<Rightarrow> bool" where
  "instanceof env objs (Named r) c = (class_of env objs r = c)"
| "instanceof env objs t c = False"

subsection \<open>Constructors that check their argument\<close>

text \<open>
  \<open>isType\<close> of graphql-js: an instance of one of the six classes of named types, or
  a list or non-null type.  \<open>new GraphQLList(type)\<close> and \<open>new GraphQLNonNull(type)\<close>
  throw an \<open>Error\<close> (by \<open>invariant\<close>) when \<open>type\<close> is no type, the second also when
  it is a non-null type; \<open>new GraphQLDirective(config)\<close> throws when the type of an
  argument is no input type, and copies of each argument its name, description, type
  and default value.  (The messages go on with the value they were given; they are cut
  here.)
\<close>

definition isType :: "env \<Rightarrow> named_type list \<Rightarrow> gql_type \<Rightarrow> bool" where
  "isType env objs t \<longleftrightarrow>
     (case t of
        Named r \<Rightarrow> class_of env objs r \<noteq> NotAType
      | GraphQLList u \<Rightarrow> True
      | GraphQLNonNull u \<Rightarrow> True)"

definition new_GraphQLList :: "env \<Rightarrow> named_type list \<Rightarrow> gql_type \<Rightarrow> js_error + gql_type" where
  "new_GraphQLList env objs t =
     (if isType env objs t then Inr (GraphQLList t)
      else Inl (Error ''Can only create List of a GraphQLType.''))"

fun is_GraphQLNonNull :: "gql_type \<Rightarrow> bool" where
  "is_GraphQLNonNull (GraphQLNonNull t) = True"
| "is_GraphQLNonNull t = False"

definition new_GraphQLNonNull :: "env \<Rightarrow> named_type list \<Rightarrow> gql_type \<Rightarrow> js_error + gql_type" where
  "new_GraphQLNonNull env objs t =
     (if isType env objs t \<and> \<not> is_GraphQLNonNull t then Inr (GraphQLNonNull t)
      else Inl (Error ''Can only create NonNull of a Nullable GraphQLType.''))"

definition new_GraphQLDirective :: "env \<Rightarrow> named_type list \<Rightarrow> directive_def \<Rightarrow> string
    \<Rightarrow> string option \<Rightarrow> string list \<Rightarrow> input_value js_object option
    \<Rightarrow> js_error + gql_directive" where
  "new_GraphQLDirective env objs node name description locations args =
     (case args of
        None \<Rightarrow>
          Inr \<lparr>d_object = ConstructedDirective node, d_name = name,
               d_description = description, d_locations = locations, d_args = []\<rparr>
      | Some m \<Rightarrow>
          if list_all (\<lambda>kv. isInputType env objs (in_type (snd kv))) m
          then Inr \<lparr>d_object = ConstructedDirective node, d_name = name,
                    d_description = description, d_locations = locations,
                    d_args = map (\<lambda>kv. (fst kv, (snd kv)\<lparr>in_node := None\<rparr>)) m\<rparr>
          else Inl (Error ''argument type must be Input Type.''))"

section \<open>Wrapped types\<close>

text \<open>
  \<open>buildWrappedType\<close>.  \<open>invariant(!(wrappedType instanceof GraphQLNonNull), ...)\<close>
  throws an \<open>Error\<close> with the message when the condition is false.  The store is
  given for the class test of the constructors.
\<close>

fun buildWrappedType :: "env \<Rightarrow> named_type list \<Rightarrow> gql_type \<Rightarrow> type_node
    \<Rightarrow> js_error + gql_type" where
  "buildWrappedType env objs innerType (ListType t) =
     (case buildWrappedType env objs innerType t of
        Inl e \<Rightarrow> Inl e
      | Inr wrapped \<Rightarrow> new_GraphQLList env objs wrapped)"
| "buildWrappedType env objs innerType (NonNullType t) =
     (case buildWrappedType env objs innerType t of
        Inl e \<Rightarrow> Inl e
      | Inr wrappedType \<Rightarrow>
          if is_GraphQLNonNull wrappedType then Inl (Error ''No nesting nonnull.'')
          else new_GraphQLNonNull env objs wrappedType)"
| "buildWrappedType env objs innerType (NamedType n) = Inr innerType"

section \<open>Type resolution\<close>

text \<open>
  \<open>typeDefNamed\<close>, \<open>makeSchemaDef\<close>, \<open>makeUnionDef\<close>, \<open>produceObjectType\<close> and
  \<open>produceType\<close> call each other, and nothing in the code bounds the recursion.  The
  functions below take the \<open>typeDefNamed\<close> they call as an argument (a \<open>resolver\<close>);
  \<open>typeDefNamed\<close> itself is defined at the end of the section by recursion on the
  number of nested activations of \<open>typeDefNamed\<close> the call stack still has room for,
  and throws the engine's \<open>RangeError\<close> when there is none.
\<close>

type_synonym resolver = "string \<Rightarrow> ast_node \<Rightarrow> build_state \<Rightarrow> named_ref option res"

definition produceType :: "env \<Rightarrow> resolver \<Rightarrow> type_node \<Rightarrow> gql_type \<Rightarrow> build_state
    \<Rightarrow> gql_type res" where
  "produceType env rec typeNode defaultValue st =
     (let namedTypeNode = getNamedTypeNode typeNode;
          typeName = name_value (nt_name namedTypeNode) in
      bind_res (rec typeName (NamedTypeNode namedTypeNode) st) (\<lambda>typeDef st1.
      lift_res
        (buildWrappedType env (store st1)
           (case typeDef of None \<Rightarrow> defaultValue | Some r \<Rightarrow> Named r) typeNode)
        st1))"

definition produceInputType :: "env \<Rightarrow> resolver \<Rightarrow> type_node \<Rightarrow> build_state \<Rightarrow> gql_type res" where
  "produceInputType env rec typeNode st =
     bind_res (produceType env rec typeNode (Named (Placeholder inputType)) st) (\<lambda>t st1.
     Inr (t,
       if \<not> isInputType env (store st1) t
       then push_error (newGQLError ''Expected Input type.''
              (Some [NamedTypeNode (getNamedTypeNode typeNode)]) SEVERITY_error) st1
       else st1))"

definition produceOutputType :: "env \<Rightarrow> resolver \<Rightarrow> type_node \<Rightarrow> build_state \<Rightarrow> gql_type res" where
  "produceOutputType env rec typeNode st =
     bind_res (produceType env rec typeNode (Named (Placeholder outputType)) st) (\<lambda>t st1.
     Inr (t,
       if \<not> isOutputType env (store st1) t
       then push_error (newGQLError ''Expected Output type.''
              (Some [NamedTypeNode (getNamedTypeNode typeNode)]) SEVERITY_error) st1
       else st1))"

definition produceObjectType :: "env \<Rightarrow> resolver \<Rightarrow> type_node \<Rightarrow> build_state \<Rightarrow> gql_type res" where
  "produceObjectType env rec typeNode st =
     bind_res (produceType env rec typeNode (Named (Placeholder objectType)) st) (\<lambda>t st1.
     Inr (t,
       if \<not> instanceof env (store st1) t ObjectClass
       then push_error (newGQLError ''Expected Object type.''
              (Some [NamedTypeNode (getNamedTypeNode typeNode)]) SEVERITY_error) st1
       else st1))"

definition produceInterfaceType :: "env \<Rightarrow> resolver \<Rightarrow> type_node \<Rightarrow> build_state \<Rightarrow> gql_type res" where
  "produceInterfaceType env rec typeNode st =
     bind_res (produceType env rec typeNode (Named (Placeholder interfaceType)) st) (\<lambda>t st1.
     Inr (t,
       if \<not> instanceof env (store st1) t InterfaceClass
       then push_error (newGQLError ''Expected Interface type.''
              (Some [NamedTypeNode (getNamedTypeNode typeNode)]) SEVERITY_error) st1
       else st1))"

text \<open>
  \<open>getDeprecationReason\<close>: \<open>find\<close> gives the first directive of the name, and
  \<open>reason\<close> is read from the values of \<open>getArgumentValues\<close> (an absent key reads as
  \<open>undefined\<close>).
\<close>

definition getDeprecationReason :: "env \<Rightarrow> directive_node list option \<Rightarrow> js_error + js_value" where
  "getDeprecationReason env ds =
     (case (case ds of
              None \<Rightarrow> None
            | Some l \<Rightarrow>
                find (\<lambda>directive.
                  name_value (dir_name directive) = d_name GraphQLDeprecatedDirective) l) of
        None \<Rightarrow> Inr JSNull
      | Some deprecatedAST \<Rightarrow>
          (case getArgumentValues env GraphQLDeprecatedDirective deprecatedAST of
             Inl e \<Rightarrow> Inl e
           | Inr vals \<Rightarrow>
               Inr (case map_of vals ''reason'' of None \<Rightarrow> JSUndefined | Some v \<Rightarrow> v)))"

definition makeInputValues :: "env \<Rightarrow> resolver \<Rightarrow> input_value_node list \<Rightarrow> build_state
    \<Rightarrow> input_value js_object res" where
  "makeInputValues env rec vs st =
     bind_res
       (map_res (\<lambda>v st0.
          bind_res (produceInputType env rec (iv_type v) st0) (\<lambda>t st1.
          bind_res (lift_res (valueFromAST env (iv_defaultValue v) t) st1) (\<lambda>dv st2.
          Inr ((name_value (iv_name v),
                \<lparr>in_type = t, in_node = Some v, in_description = getDescription (iv_loc v),
                 in_defaultValue = dv\<rparr>), st2)))) vs st)
       (\<lambda>kvs st1. Inr (keyValMap kvs, st1))"

text \<open>
  The members the builders read of a definition node; on a node of another kind the
  member does not exist, and the accessor gives the empty list (or \<open>None\<close>).
\<close>

fun def_fields :: "type_def \<Rightarrow> field_node list" where
  "def_fields (ObjectTypeDefinition n is fs l) = fs"
| "def_fields (InterfaceTypeDefinition n fs l) = fs"
| "def_fields d = []"

fun def_interfaces :: "type_def \<Rightarrow> named_type_node list option" where
  "def_interfaces (ObjectTypeDefinition n is fs l) = is"
| "def_interfaces d = None"

fun def_enum_values :: "type_def \<Rightarrow> enum_value_node list" where
  "def_enum_values (EnumTypeDefinition n vs l) = vs"
| "def_enum_values d = []"

fun def_types :: "type_def \<Rightarrow> named_type_node list" where
  "def_types (UnionTypeDefinition n ts l) = ts"
| "def_types d = []"

fun def_input_fields :: "type_def \<Rightarrow> input_value_node list" where
  "def_input_fields (InputObjectTypeDefinition n fs l) = fs"
| "def_input_fields d = []"

definition makeFieldDefMap :: "env \<Rightarrow> resolver \<Rightarrow> type_def \<Rightarrow> build_state
    \<Rightarrow> field_def js_object res" where
  "makeFieldDefMap env rec d st =
     bind_res
       (map_res (\<lambda>field st0.
          bind_res (produceOutputType env rec (f_type field) st0) (\<lambda>t st1.
          bind_res (makeInputValues env rec (f_arguments field) st1) (\<lambda>args st2.
          bind_res (lift_res (getDeprecationReason env (f_directives field)) st2) (\<lambda>reason st3.
          Inr ((name_value (f_name field),
                \<lparr>fd_type = t, fd_node = field, fd_description = getDescription (f_loc field),
                 fd_args = args, fd_deprecationReason = reason\<rparr>), st3)))))
          (def_fields d) st)
       (\<lambda>kvs st1. Inr (keyValMap kvs, st1))"

definition makeImplementedInterfaces :: "env \<Rightarrow> resolver \<Rightarrow> type_def \<Rightarrow> build_state
    \<Rightarrow> gql_type list option res" where
  "makeImplementedInterfaces env rec d st =
     (case def_interfaces d of
        None \<Rightarrow> Inr (None, st)
      | Some ifaces \<Rightarrow>
          bind_res
            (map_res (\<lambda>iface. produceInterfaceType env rec (NamedType iface)) ifaces st)
            (\<lambda>ts st1. Inr (Some ts, st1)))"

text \<open>
  \<open>new\<close>: the object gets the next address of the store.  The constructors of the
  six classes take what the builders give them; \<open>new GraphQLEnumType\<close> defines its
  values at once and throws an \<open>Error\<close> (by \<open>invariant\<close>) when the map of values has
  no own key.
\<close>

definition alloc :: "named_type \<Rightarrow> build_state \<Rightarrow> nat res" where
  "alloc obj st = Inr (length (store st), st\<lparr>store := store st @ [obj]\<rparr>)"

definition makeTypeDef :: "type_def \<Rightarrow> build_state \<Rightarrow> nat res" where
  "makeTypeDef d st =
     alloc (GraphQLObjectType (name_value (def_name d)) (Some d) (getDescription (def_loc d))
              Deferred Deferred) st"

definition makeInterfaceDef :: "type_def \<Rightarrow> build_state \<Rightarrow> nat res" where
  "makeInterfaceDef d st =
     alloc (GraphQLInterfaceType (name_value (def_name d)) (Some d)
              (getDescription (def_loc d)) Deferred) st"

definition makeEnumDef :: "env \<Rightarrow> type_def \<Rightarrow> build_state \<Rightarrow> nat res" where
  "makeEnumDef env d st =
     bind_res
       (map_res (\<lambda>enumValue st0.
          bind_res (lift_res (getDeprecationReason env (ev_directives enumValue)) st0)
            (\<lambda>reason st1.
          Inr ((name_value (ev_name enumValue),
                \<lparr>evd_description = getDescription (ev_loc enumValue),
                 evd_deprecationReason = reason, evd_node = enumValue\<rparr>), st1)))
          (def_enum_values d) st)
       (\<lambda>kvs st1.
          if keyValMap kvs = []
          then Inl (Error (name_value (def_name d) @
                 '' values must be an object with value names as keys.''))
          else alloc (GraphQLEnumType (name_value (def_name d)) None
                        (getDescription (def_loc d)) (keyValMap kvs)) st1)"

definition makeUnionDef :: "env \<Rightarrow> resolver \<Rightarrow> type_def \<Rightarrow> build_state \<Rightarrow> nat res" where
  "makeUnionDef env rec d st =
     bind_res (map_res (\<lambda>t. produceObjectType env rec (NamedType t)) (def_types d) st)
       (\<lambda>members st1.
          alloc (GraphQLUnionType (name_value (def_name d)) (Some d)
                   (getDescription (def_loc d)) members) st1)"

definition makeScalarDef :: "type_def \<Rightarrow> build_state \<Rightarrow> nat res" where
  "makeScalarDef d st =
     alloc (GraphQLScalarType (name_value (def_name d)) (Some d) (getDescription (def_loc d)))
       st"

definition makeInputObjectDef :: "type_def \<Rightarrow> build_state \<Rightarrow> nat res" where
  "makeInputObjectDef d st =
     alloc (GraphQLInputObjectType (name_value (def_name d)) (Some d)
              (getDescription (def_loc d)) Deferred) st"

text \<open>
  \<open>makeSchemaDef\<close>.  Its two \<open>throw\<close>s (no definition, a kind that is not one of the
  six) have no input here: \<open>typeDefNamed\<close> calls it on a member of \<open>nodeMap\<close>, which
  holds definitions of the six kinds only.
\<close>

fun makeSchemaDef :: "env \<Rightarrow> resolver \<Rightarrow> type_def \<Rightarrow> build_state \<Rightarrow> nat res" where
  "makeSchemaDef env rec (ObjectTypeDefinition n is fs l) st =
     makeTypeDef (ObjectTypeDefinition n is fs l) st"
| "makeSchemaDef env rec (InterfaceTypeDefinition n fs l) st =
     makeInterfaceDef (InterfaceTypeDefinition n fs l) st"
| "makeSchemaDef env rec (EnumTypeDefinition n vs l) st =
     makeEnumDef env (EnumTypeDefinition n vs l) st"
| "makeSchemaDef env rec (UnionTypeDefinition n ts l) st =
     makeUnionDef env rec (UnionTypeDefinition n ts l) st"
| "makeSchemaDef env rec (ScalarTypeDefinition n l) st =
     makeScalarDef (ScalarTypeDefinition n l) st"
| "makeSchemaDef env rec (InputObjectTypeDefinition n fs l) st =
     makeInputObjectDef (InputObjectTypeDefinition n fs l) st"

text \<open>
  The body of \<open>typeDefNamed\<close>: a truthy \<open>innerTypeMap[typeName]\<close> is returned; a name
  \<open>nodeMap\<close> does not hold gives the diagnostic and \<open>null\<close>; otherwise the definition
  is built, its \<open>node\<close> set, and only then is it stored in \<open>innerTypeMap\<close>.
\<close>

definition typeDefNamed_body :: "env \<Rightarrow> type_def js_object \<Rightarrow> resolver \<Rightarrow> resolver" where
  "typeDefNamed_body env nodeMap rec typeName node st =
     (case innerTypeMap_get (innerTypeMap st) typeName of
        Some r \<Rightarrow> Inr (Some r, st)
      | None \<Rightarrow>
          (case map_of nodeMap typeName of
             None \<Rightarrow>
               Inr (None,
                 push_error (newGQLError (''Type '' @ quoted typeName @ '' not found.'')
                   (Some [node]) SEVERITY_error) st)
           | Some d \<Rightarrow>
               bind_res (makeSchemaDef env rec d st) (\<lambda>a st1.
               Inr (Some (Instance a),
                 st1\<lparr>store := (store st1)[a := set_node d (store st1 ! a)],
                     innerTypeMap := obj_set typeName (Instance a) (innerTypeMap st1)\<rparr>))))"

primrec typeDefNamed :: "nat \<Rightarrow> env \<Rightarrow> type_def js_object \<Rightarrow> resolver" where
  "typeDefNamed 0 env nodeMap =
     (\<lambda>typeName node st. Inl (RangeError ''Maximum call stack size exceeded''))"
| "typeDefNamed (Suc depth) env nodeMap =
     typeDefNamed_body env nodeMap (typeDefNamed depth env nodeMap)"

text \<open>
  \<open>getObjectType\<close> is called with \<open>nodeMap[queryTypeName]\<close>, which is \<open>undefined\<close>
  (\<open>None\<close>) when \<open>nodeMap\<close> has no such name; reading \<open>typeNode.name\<close> then throws a
  \<open>TypeError\<close>.  A null \<open>type\<close> is not an instance of \<open>GraphQLObjectType\<close>.
\<close>

definition getObjectType :: "env \<Rightarrow> resolver \<Rightarrow> type_def option \<Rightarrow> build_state
    \<Rightarrow> named_ref option res" where
  "getObjectType env rec typeNode st =
     (case typeNode of
        None \<Rightarrow> Inl (TypeError ''Cannot read property name of undefined'')
      | Some tn \<Rightarrow>
          bind_res (rec (name_value (def_name tn)) (PlaceholderNode objectType) st)
            (\<lambda>t st1.
               Inr (t,
                 if \<not> (case t of None \<Rightarrow> False
                        | Some r \<Rightarrow> instanceof env (store st1) (Named r) ObjectClass)
                 then push_error (newGQLError ''AST must provide object type.''
                        (Some [TypeDefNode tn]) SEVERITY_error) st1
                 else st1)))"

definition getDirective :: "env \<Rightarrow> resolver \<Rightarrow> directive_def \<Rightarrow> build_state
    \<Rightarrow> gql_directive res" where
  "getDirective env rec directiveNode st =
     bind_res
       (case dd_arguments directiveNode of
          None \<Rightarrow> Inr (None, st)
        | Some arguments \<Rightarrow>
            bind_res (makeInputValues env rec arguments st) (\<lambda>m st1. Inr (Some m, st1)))
       (\<lambda>args st1.
          lift_res
            (new_GraphQLDirective env (store st1) directiveNode
               (name_value (dd_name directiveNode)) (getDescription (dd_loc directiveNode))
               (map name_value (dd_locations directiveNode)) args)
            st1)"

section \<open>The scan of the definitions\<close>

text \<open>
  The variables the \<open>for\<close> loop of \<open>buildASTSchema\<close> fills.  \<open>scanned_errors\<close> is the
  array \<open>errors\<close> during the loop.
\<close>

record partition =
  schemaDef :: "schema_def option"
  scanned_errors :: "gql_error list"
  typeDefs :: "type_def list"
  nodeMap :: "type_def js_object"
  nodeMapWithAllReferences :: "type_def list js_object"
  directiveDefs :: "directive_def list"

definition empty_partition :: partition where
  "empty_partition =
     \<lparr>schemaDef = None, scanned_errors = [], typeDefs = [], nodeMap = [],
      nodeMapWithAllReferences = [], directiveDefs = []\<rparr>"

text \<open>One turn of the loop: the \<open>switch\<close> on the kind of the definition.\<close>

fun scan_definition :: "partition \<Rightarrow> definition_node \<Rightarrow> partition" where
  "scan_definition p (SchemaDefinition d) =
     p\<lparr>scanned_errors :=
         (case schemaDef p of
            Some sd \<Rightarrow>
              scanned_errors p @
                [newGQLError ''Must provide only one schema definition.''
                   (Some [SchemaNode sd, SchemaNode d]) SEVERITY_error]
          | None \<Rightarrow> scanned_errors p),
       schemaDef := Some d\<rparr>"
| "scan_definition p (TypeDefinition d) =
     (let name = name_value (def_name d);
          p1 = (case map_of (nodeMap p) name of
                  None \<Rightarrow> p\<lparr>typeDefs := typeDefs p @ [d], nodeMap := obj_set name d (nodeMap p)\<rparr>
                | Some first \<Rightarrow> p);
          refs = (case map_of (nodeMapWithAllReferences p1) name of
                    None \<Rightarrow> []
                  | Some ds \<Rightarrow> ds)
      in p1\<lparr>nodeMapWithAllReferences :=
              obj_set name (refs @ [d]) (nodeMapWithAllReferences p1)\<rparr>)"
| "scan_definition p (DirectiveDefinition d) = p\<lparr>directiveDefs := directiveDefs p @ [d]\<rparr>"
| "scan_definition p OtherDefinition = p"

definition scan_definitions :: "definition_node list \<Rightarrow> partition" where
  "scan_definitions definitions = foldl scan_definition empty_partition definitions"

text \<open>
  The diagnostics for the names defined more than once: \<open>Object.keys\<close> gives the
  names in the order of their first insertion (a name that is an array index would come
  first; a GraphQL name does not start with a digit).
\<close>

definition duplicate_name_errors :: "type_def list js_object \<Rightarrow> gql_error list" where
  "duplicate_name_errors refs =
     concat (map (\<lambda>(name, ds).
       if length ds > 1
       then [newGQLError
               (''Schema must contain unique named types but contains multiple types named ''
                  @ quoted name @ ''.'')
               (Some (map (\<lambda>typeDefAST. NameNode (def_name typeDefAST)) ds)) SEVERITY_error]
       else []) refs)"

text \<open>
  The names of the root operation types: from the last schema definition seen, or else
  from the types named Query, Mutation and Subscription.  An unset variable is \<open>None\<close>.
\<close>

definition set_operation_type ::
    "string option \<times> string option \<times> string option \<Rightarrow> operation_type_node
     \<Rightarrow> string option \<times> string option \<times> string option" where
  "set_operation_type names operationType =
     (case names of (queryTypeName, mutationTypeName, subscriptionTypeName) \<Rightarrow>
        (let typeName = name_value (nt_name (op_type operationType)) in
         if operation operationType = ''query''
         then (Some typeName, mutationTypeName, subscriptionTypeName)
         else if operation operationType = ''mutation''
         then (queryTypeName, Some typeName, subscriptionTypeName)
         else if operation operationType = ''subscription''
         then (queryTypeName, mutationTypeName, Some typeName)
         else (queryTypeName, mutationTypeName, subscriptionTypeName)))"

definition operation_type_names ::
    "partition \<Rightarrow> string option \<times> string option \<times> string option" where
  "operation_type_names p =
     (case schemaDef p of
        Some sd \<Rightarrow> foldl set_operation_type (None, None, None) (operationTypes sd)
      | None \<Rightarrow>
          (if map_of (nodeMap p) ''Query'' \<noteq> None then Some ''Query'' else None,
           if map_of (nodeMap p) ''Mutation'' \<noteq> None then Some ''Mutation'' else None,
           if map_of (nodeMap p) ''Subscription'' \<noteq> None then Some ''Subscription''
           else None))"

text \<open>A string variable is truthy when it is set and not the empty string.\<close>

definition truthy :: "string option \<Rightarrow> bool" where
  "truthy v \<longleftrightarrow> (case v of None \<Rightarrow> False | Some s \<Rightarrow> s \<noteq> [])"

definition root_type :: "env \<Rightarrow> resolver \<Rightarrow> type_def js_object \<Rightarrow> string option
    \<Rightarrow> build_state \<Rightarrow> named_ref option res" where
  "root_type env rec nm typeName st =
     (if truthy typeName then getObjectType env rec (map_of nm (the typeName)) st
      else Inr (None, st))"

definition add_specified_directives :: "gql_directive list \<Rightarrow> gql_directive list" where
  "add_specified_directives ds =
     (let ds1 = (if \<not> (\<exists>directive \<in> set ds. d_name directive = ''skip'')
                 then ds @ [GraphQLSkipDirective] else ds);
          ds2 = (if \<not> (\<exists>directive \<in> set ds1. d_name directive = ''include'')
                 then ds1 @ [GraphQLIncludeDirective] else ds1)
      in if \<not> (\<exists>directive \<in> set ds2. d_name directive = ''deprecated'')
         then ds2 @ [GraphQLDeprecatedDirective] else ds2)"

section \<open>The schema\<close>

text \<open>
  Pulling the deferred members of the object at an address, each once
  (\<open>getFields\<close>, \<open>getInterfaces\<close> of graphql-js): the closures the builders gave are
  \<open>makeFieldDefMap(def)\<close>, \<open>makeImplementedInterfaces(def)\<close> and
  \<open>makeInputValues(def.fields)\<close>, with \<open>def\<close> the node the builder was called on.
\<close>

definition force_thunk :: "(build_state \<Rightarrow> 'a res) \<Rightarrow> 'a thunk \<Rightarrow> build_state \<Rightarrow> 'a thunk res" where
  "force_thunk f t st =
     (case t of
        Forced x \<Rightarrow> Inr (Forced x, st)
      | Deferred \<Rightarrow> bind_res (f st) (\<lambda>x st1. Inr (Forced x, st1)))"

fun force_members :: "env \<Rightarrow> resolver \<Rightarrow> type_def \<Rightarrow> named_type \<Rightarrow> build_state
    \<Rightarrow> named_type res" where
  "force_members env rec d (GraphQLObjectType n nd desc fs is) st =
     bind_res (force_thunk (makeFieldDefMap env rec d) fs st) (\<lambda>fs' st1.
     bind_res (force_thunk (makeImplementedInterfaces env rec d) is st1) (\<lambda>is' st2.
     Inr (GraphQLObjectType n nd desc fs' is', st2)))"
| "force_members env rec d (GraphQLInterfaceType n nd desc fs) st =
     bind_res (force_thunk (makeFieldDefMap env rec d) fs st) (\<lambda>fs' st1.
     Inr (GraphQLInterfaceType n nd desc fs', st1))"
| "force_members env rec d (GraphQLInputObjectType n nd desc fs) st =
     bind_res (force_thunk (makeInputValues env rec (def_input_fields d)) fs st) (\<lambda>fs' st1.
     Inr (GraphQLInputObjectType n nd desc fs', st1))"
| "force_members env rec d obj st = Inr (obj, st)"

fun node_of :: "named_type \<Rightarrow> type_def option" where
  "node_of (GraphQLObjectType n d desc fs is) = d"
| "node_of (GraphQLInterfaceType n d desc fs) = d"
| "node_of (GraphQLUnionType n d desc ts) = d"
| "node_of (GraphQLEnumType n d desc vs) = d"
| "node_of (GraphQLScalarType n d desc) = d"
| "node_of (GraphQLInputObjectType n d desc fs) = d"

definition force_instance :: "env \<Rightarrow> resolver \<Rightarrow> nat \<Rightarrow> build_state \<Rightarrow> unit res" where
  "force_instance env rec a st =
     (if a < length (store st) then
        (case node_of (store st ! a) of
           None \<Rightarrow> Inr ((), st)
         | Some d \<Rightarrow>
             bind_res (force_members env rec d (store st ! a) st) (\<lambda>obj st1.
             Inr ((), st1\<lparr>store := (store st1)[a := obj]\<rparr>)))
      else Inr ((), st))"

fun force_all :: "env \<Rightarrow> resolver \<Rightarrow> nat list \<Rightarrow> build_state \<Rightarrow> unit res" where
  "force_all env rec [] st = Inr ((), st)"
| "force_all env rec (a # as) st =
     bind_res (force_instance env rec a st) (\<lambda>u st1. force_all env rec as st1)"

text \<open>
  Modelled from the spec: the class \<open>GraphQLSchema\<close> (\<open>./GraphQLSchema\<close>) is not among the
  sources.  Spec 3: <<Every referenced name resolves to exactly one NamedType (possibly
  a Placeholder) by the time the build returns>>, and 4.6: field maps are
  <<deferred-but-memoized, never rebuilt>>.  So the constructor pulls every deferred
  member of the objects built so far, each once (here in the order of their
  allocation, which the spec leaves open), and keeps the configuration; the \<open>_errors\<close>
  it reports are the parameter \<open>GraphQLSchema_errors\<close>.
\<close>

definition GraphQLSchema :: "env \<Rightarrow> resolver \<Rightarrow> schema_config \<Rightarrow> build_state \<Rightarrow> gql_schema res" where
  "GraphQLSchema env rec config st =
     bind_res (force_all env rec [0 ..< length (store st)] st) (\<lambda>u st1.
     Inr (\<lparr>query = query config, mutation = mutation config,
           subscription = subscription config, types = types config,
           directives = directives config, config_nodeMap = config_nodeMap config,
           schema_store = store st1,
           schema_errors = GraphQLSchema_errors env config (store st1)\<rparr>, st1))"

section \<open>buildASTSchema\<close>

text \<open>
  \<open>buildASTSchema(ast)\<close>.  The first argument is the room of the call stack, counted
  in nested activations of \<open>typeDefNamed\<close>; the second holds what the module imports.
  The result is the thrown error (\<open>Inl\<close>) or the pair \<open>{schema, errors}\<close>.
\<close>

definition buildASTSchema :: "nat \<Rightarrow> env \<Rightarrow> ast \<Rightarrow> js_error + gql_schema \<times> gql_error list" where
  "buildASTSchema depth env a =
     (case a of
        NotDocument \<Rightarrow> Inl (Error ''Must provide a document ast.'')
      | Document definitions \<Rightarrow>
          (let p = scan_definitions definitions;
               errors1 = scanned_errors p @ duplicate_name_errors (nodeMapWithAllReferences p)
           in case operation_type_names p of
             (queryTypeName, mutationTypeName, subscriptionTypeName) \<Rightarrow>
          (let errors2 =
                 (if \<not> truthy queryTypeName
                  then errors1 @
                    [newGQLError
                       ''Must provide schema definition with query type or a type named Query.''
                       None SEVERITY_error]
                  else errors1);
               rec = typeDefNamed depth env (nodeMap p);
               st0 = \<lparr>errors = errors2, innerTypeMap = initial_innerTypeMap, store = []\<rparr>
           in
           case
             bind_res
               (map_res (\<lambda>d. rec (name_value (def_name d)) (TypeDefNode d)) (typeDefs p) st0)
               (\<lambda>built st1.
             bind_res (map_res (getDirective env rec) (directiveDefs p) st1) (\<lambda>ds st2.
             bind_res (root_type env rec (nodeMap p) queryTypeName st2) (\<lambda>q st3.
             bind_res (root_type env rec (nodeMap p) mutationTypeName st3) (\<lambda>m st4.
             bind_res (root_type env rec (nodeMap p) subscriptionTypeName st4) (\<lambda>s st5.
             GraphQLSchema env rec
               \<lparr>query = q, mutation = m, subscription = s,
                types =
                  concat (map (\<lambda>t. case t of None \<Rightarrow> [] | Some r \<Rightarrow> [r]) built) @
                  map Builtin [''String'', ''Int'', ''Float'', ''Boolean'', ''ID''],
                directives = add_specified_directives ds,
                config_nodeMap = nodeMap p\<rparr> st5)))))
           of
             Inl e \<Rightarrow> Inl e
           | Inr (schema, st) \<Rightarrow> Inr (schema, errors st @ schema_errors schema))))"

section \<open>Notions of the specification\<close>

text \<open>
  The modifiers of a type reference, outermost first; a resolved type built from a list
  of modifiers, and the modifiers read back from a resolved type.
\<close>

datatype modifier = ListOf | NonNullOf

fun modifiers :: "type_node \<Rightarrow> modifier list" where
  "modifiers (NamedType n) = []"
| "modifiers (ListType t) = ListOf # modifiers t"
| "modifiers (NonNullType t) = NonNullOf # modifiers t"

fun apply_modifiers :: "modifier list \<Rightarrow> gql_type \<Rightarrow> gql_type" where
  "apply_modifiers [] t = t"
| "apply_modifiers (ListOf # ms) t = GraphQLList (apply_modifiers ms t)"
| "apply_modifiers (NonNullOf # ms) t = GraphQLNonNull (apply_modifiers ms t)"

fun wrappers_of :: "gql_type \<Rightarrow> modifier list" where
  "wrappers_of (Named r) = []"
| "wrappers_of (GraphQLList t) = ListOf # wrappers_of t"
| "wrappers_of (GraphQLNonNull t) = NonNullOf # wrappers_of t"

text \<open>No non-null modifier directly inside a non-null modifier.\<close>

fun no_nested_nonnull :: "type_node \<Rightarrow> bool" where
  "no_nested_nonnull (NamedType n) = True"
| "no_nested_nonnull (ListType t) = no_nested_nonnull t"
| "no_nested_nonnull (NonNullType (NonNullType t)) = False"
| "no_nested_nonnull (NonNullType t) = no_nested_nonnull t"

text \<open>The schema definitions of a document, in its order.\<close>

fun schema_blocks :: "definition_node list \<Rightarrow> schema_def list" where
  "schema_blocks [] = []"
| "schema_blocks (SchemaDefinition d # ds) = d # schema_blocks ds"
| "schema_blocks (other # ds) = schema_blocks ds"

text \<open>The diagnostic of a second schema definition, with its two nodes.\<close>

definition multiple_schema_diagnostic :: "schema_def \<Rightarrow> schema_def \<Rightarrow> gql_error" where
  "multiple_schema_diagnostic a b =
     newGQLError ''Must provide only one schema definition.''
       (Some [SchemaNode a, SchemaNode b]) SEVERITY_error"

definition multiple_schema_diagnostics :: "gql_error list \<Rightarrow> gql_error list" where
  "multiple_schema_diagnostics errs =
     filter (\<lambda>e. message e = ''Must provide only one schema definition.'') errs"

text \<open>The type definitions of a document, in its order, and those of one name.\<close>

fun type_definitions :: "definition_node list \<Rightarrow> type_def list" where
  "type_definitions [] = []"
| "type_definitions (TypeDefinition d # ds) = d # type_definitions ds"
| "type_definitions (other # ds) = type_definitions ds"

definition occurrences :: "string \<Rightarrow> definition_node list \<Rightarrow> type_def list" where
  "occurrences n defs = filter (\<lambda>d. name_value (def_name d) = n) (type_definitions defs)"

text \<open>The directive definitions of a document, in its order.\<close>

fun directive_definitions :: "definition_node list \<Rightarrow> directive_def list" where
  "directive_definitions [] = []"
| "directive_definitions (DirectiveDefinition d # ds) = d # directive_definitions ds"
| "directive_definitions (other # ds) = directive_definitions ds"

text \<open>The diagnostic of a name defined more than once, with the name nodes given.\<close>

definition duplicate_name_message :: "string \<Rightarrow> string" where
  "duplicate_name_message n =
     ''Schema must contain unique named types but contains multiple types named ''
       @ quoted n @ ''.''"

definition duplicate_name_diagnostic :: "string \<Rightarrow> type_def list \<Rightarrow> gql_error" where
  "duplicate_name_diagnostic n ds =
     newGQLError (duplicate_name_message n) (Some (map (\<lambda>d. NameNode (def_name d)) ds))
       SEVERITY_error"

text \<open>
  The diagnostics of type resolution (\<open>typeDefNamed\<close>, the four \<open>produce...Type\<close> and
  \<open>getObjectType\<close>), by their messages.
\<close>

definition resolution_diagnostic :: "gql_error \<Rightarrow> bool" where
  "resolution_diagnostic e \<longleftrightarrow>
     message e \<in> set [''Expected Input type.'', ''Expected Output type.'',
       ''Expected Object type.'', ''Expected Interface type.'',
       ''AST must provide object type.'']
     \<or> take 6 (message e) = ''Type '' @ [CHR 0x22]"

definition errors_extend :: "build_state \<Rightarrow> build_state \<Rightarrow> bool" where
  "errors_extend st st' \<longleftrightarrow>
     take (length (errors st)) (errors st') = errors st \<and>
     list_all resolution_diagnostic (drop (length (errors st)) (errors st'))"

text \<open>
  What an object is made from.  \<open>def_class\<close> is the class \<open>makeSchemaDef\<close> instantiates
  for a definition, by its kind; the \<open>header\<close> of an object is its name, its node, its
  class and its description; an object is \<open>made_from\<close> a definition when its header is
  the one a builder called on that definition gives (with \<open>node\<close> as \<open>typeDefNamed\<close>
  sets it).
\<close>

fun def_class :: "type_def \<Rightarrow> gql_class" where
  "def_class (ScalarTypeDefinition n l) = ScalarClass"
| "def_class (ObjectTypeDefinition n ifs fs l) = ObjectClass"
| "def_class (InterfaceTypeDefinition n fs l) = InterfaceClass"
| "def_class (EnumTypeDefinition n vs l) = EnumClass"
| "def_class (UnionTypeDefinition n ts l) = UnionClass"
| "def_class (InputObjectTypeDefinition n fs l) = InputObjectClass"

fun description_of :: "named_type \<Rightarrow> string option" where
  "description_of (GraphQLObjectType n d desc fs ifs) = desc"
| "description_of (GraphQLInterfaceType n d desc fs) = desc"
| "description_of (GraphQLUnionType n d desc ts) = desc"
| "description_of (GraphQLEnumType n d desc vs) = desc"
| "description_of (GraphQLScalarType n d desc) = desc"
| "description_of (GraphQLInputObjectType n d desc fs) = desc"

definition header :: "named_type \<Rightarrow> string \<times> type_def option \<times> gql_class \<times> string option" where
  "header obj = (type_name obj, node_of obj, class_of_instance obj, description_of obj)"

definition made_from :: "type_def \<Rightarrow> named_type \<Rightarrow> bool" where
  "made_from d obj \<longleftrightarrow>
     header obj = (name_value (def_name d), Some d, def_class d, getDescription (def_loc d))"

text \<open>
  What a reference to the name \<open>n\<close> may resolve to, with \<open>nodeMap\<close> and the store: the
  built-in type of that name; the member of \<open>Object.prototype\<close> of that name; and for
  a name that is neither (\<open>constructible\<close>), a placeholder, when \<open>nodeMap\<close> holds no
  definition of \<open>n\<close>, or an object of the store made from the definition \<open>nodeMap\<close>
  holds for \<open>n\<close>.  \<open>result_ok\<close> is the same for a result of \<open>typeDefNamed\<close>, which
  is null where a placeholder is to be put.
\<close>

definition constructible :: "string \<Rightarrow> bool" where
  "constructible n \<longleftrightarrow> n \<notin> set builtin_type_names \<union> set Object_prototype_keys"

definition resolved_ok :: "type_def js_object \<Rightarrow> named_type list \<Rightarrow> string \<Rightarrow> named_ref \<Rightarrow> bool" where
  "resolved_ok nm objs n r \<longleftrightarrow>
     (case r of
        Builtin b \<Rightarrow> b = n \<and> n \<in> set builtin_type_names
      | Inherited k \<Rightarrow> k = n \<and> n \<in> set Object_prototype_keys
      | Placeholder p \<Rightarrow> constructible n \<and> map_of nm n = None
      | Instance a \<Rightarrow>
          constructible n \<and> a < length objs \<and>
          (case map_of nm n of None \<Rightarrow> False | Some d \<Rightarrow> made_from d (objs ! a)))"

definition result_ok :: "type_def js_object \<Rightarrow> named_type list \<Rightarrow> string \<Rightarrow> named_ref option
    \<Rightarrow> bool" where
  "result_ok nm objs n r \<longleftrightarrow>
     (case r of
        None \<Rightarrow> constructible n \<and> map_of nm n = None
      | Some x \<Rightarrow> resolved_ok nm objs n x)"

text \<open>
  A resolved type for a type reference: the wrappers of the reference, in its order,
  around a named type the innermost name may resolve to.
\<close>

definition type_ref_ok :: "type_def js_object \<Rightarrow> named_type list \<Rightarrow> type_node \<Rightarrow> gql_type \<Rightarrow> bool" where
  "type_ref_ok nm objs typeNode t \<longleftrightarrow>
     t = apply_modifiers (modifiers typeNode) (Named (getNamedType t)) \<and>
     resolved_ok nm objs (name_value (nt_name (getNamedTypeNode typeNode))) (getNamedType t)"

text \<open>
  The members of an object, against the definition it is made from: an entry of a map
  of input values, of fields or of enum values is made from one of the nodes of the
  definition (its key the name of the node, its type a resolved type for the type
  reference of the node, its description the one of the node, its deprecation reason
  what \<open>getDeprecationReason\<close> gives for the directives of the node); the interfaces
  and the member types are resolved types for the references of the definition, in
  their order.  A member not yet pulled is subject to nothing.
\<close>

definition input_ok :: "type_def js_object \<Rightarrow> named_type list \<Rightarrow> input_value_node list
    \<Rightarrow> string \<times> input_value \<Rightarrow> bool" where
  "input_ok nm objs ivs kv \<longleftrightarrow>
     (case in_node (snd kv) of
        None \<Rightarrow> False
      | Some iv \<Rightarrow>
          iv \<in> set ivs \<and> fst kv = name_value (iv_name iv) \<and>
          type_ref_ok nm objs (iv_type iv) (in_type (snd kv)) \<and>
          in_description (snd kv) = getDescription (iv_loc iv))"

definition field_ok :: "env \<Rightarrow> type_def js_object \<Rightarrow> named_type list \<Rightarrow> field_node list
    \<Rightarrow> string \<times> field_def \<Rightarrow> bool" where
  "field_ok env nm objs fs kv \<longleftrightarrow>
     fd_node (snd kv) \<in> set fs \<and> fst kv = name_value (f_name (fd_node (snd kv))) \<and>
     type_ref_ok nm objs (f_type (fd_node (snd kv))) (fd_type (snd kv)) \<and>
     list_all (input_ok nm objs (f_arguments (fd_node (snd kv)))) (fd_args (snd kv)) \<and>
     fd_description (snd kv) = getDescription (f_loc (fd_node (snd kv))) \<and>
     getDeprecationReason env (f_directives (fd_node (snd kv))) =
       Inr (fd_deprecationReason (snd kv))"

definition enum_value_ok :: "env \<Rightarrow> enum_value_node list \<Rightarrow> string \<times> enum_value_def \<Rightarrow> bool" where
  "enum_value_ok env vs kv \<longleftrightarrow>
     evd_node (snd kv) \<in> set vs \<and> fst kv = name_value (ev_name (evd_node (snd kv))) \<and>
     evd_description (snd kv) = getDescription (ev_loc (evd_node (snd kv))) \<and>
     getDeprecationReason env (ev_directives (evd_node (snd kv))) =
       Inr (evd_deprecationReason (snd kv))"

fun thunk_all :: "('a \<Rightarrow> bool) \<Rightarrow> 'a thunk \<Rightarrow> bool" where
  "thunk_all P Deferred = True"
| "thunk_all P (Forced x) = P x"

definition interfaces_ok :: "type_def js_object \<Rightarrow> named_type list \<Rightarrow> named_type_node list option
    \<Rightarrow> gql_type list option \<Rightarrow> bool" where
  "interfaces_ok nm objs ifaces ts \<longleftrightarrow>
     (case (ifaces, ts) of
        (None, None) \<Rightarrow> True
      | (Some is, Some rs) \<Rightarrow> list_all2 (\<lambda>i t. type_ref_ok nm objs (NamedType i) t) is rs
      | other \<Rightarrow> False)"

fun members_ok :: "env \<Rightarrow> type_def js_object \<Rightarrow> named_type list \<Rightarrow> type_def \<Rightarrow> named_type
    \<Rightarrow> bool" where
  "members_ok env nm objs d (GraphQLObjectType n nd desc fs ifs) =
     (thunk_all (list_all (field_ok env nm objs (def_fields d))) fs \<and>
      thunk_all (interfaces_ok nm objs (def_interfaces d)) ifs)"
| "members_ok env nm objs d (GraphQLInterfaceType n nd desc fs) =
     thunk_all (list_all (field_ok env nm objs (def_fields d))) fs"
| "members_ok env nm objs d (GraphQLUnionType n nd desc ts) =
     list_all2 (\<lambda>m t. type_ref_ok nm objs (NamedType m) t) (def_types d) ts"
| "members_ok env nm objs d (GraphQLEnumType n nd desc vs) =
     list_all (enum_value_ok env (def_enum_values d)) vs"
| "members_ok env nm objs d (GraphQLScalarType n nd desc) = True"
| "members_ok env nm objs d (GraphQLInputObjectType n nd desc fs) =
     thunk_all (list_all (input_ok nm objs (def_input_fields d))) fs"

text \<open>
  An object of the store is as it should be when its name is constructible and it is
  made from the definition \<open>nodeMap\<close> holds for its name, members included; a state
  is, when every object of its store is, every own property of \<open>innerTypeMap\<close> is
  what a reference to its key may resolve to, and \<open>innerTypeMap\<close> still holds the
  built-in types.
\<close>

definition object_ok :: "env \<Rightarrow> type_def js_object \<Rightarrow> named_type list \<Rightarrow> named_type \<Rightarrow> bool" where
  "object_ok env nm objs obj \<longleftrightarrow>
     constructible (type_name obj) \<and>
     (case map_of nm (type_name obj) of
        None \<Rightarrow> False
      | Some d \<Rightarrow> made_from d obj \<and> members_ok env nm objs d obj)"

definition state_ok :: "env \<Rightarrow> type_def js_object \<Rightarrow> build_state \<Rightarrow> bool" where
  "state_ok env nm st \<longleftrightarrow>
     list_all (object_ok env nm (store st)) (store st) \<and>
     list_all (\<lambda>kr. resolved_ok nm (store st) (fst kr) (snd kr)) (innerTypeMap st) \<and>
     list_all (\<lambda>b. map_of (innerTypeMap st) b = Some (Builtin b)) builtin_type_names"

text \<open>
  From one state of a call to a later one: \<open>errors\<close> has only grown, by diagnostics of
  type resolution; the store has only grown, and every object it held has kept its
  header; and a state that was as it should be still is.  A function \<open>keeps\<close> this when
  every call of it that returns does; a resolver does when, besides, what it returns for
  a name is what a reference to the name may resolve to.
\<close>

definition objs_kept :: "named_type list \<Rightarrow> named_type list \<Rightarrow> bool" where
  "objs_kept objs objs' \<longleftrightarrow>
     length objs \<le> length objs' \<and> (\<forall>a < length objs. header (objs' ! a) = header (objs ! a))"

definition step_ok :: "env \<Rightarrow> type_def js_object \<Rightarrow> build_state \<Rightarrow> build_state \<Rightarrow> bool" where
  "step_ok env nm st st' \<longleftrightarrow>
     errors_extend st st' \<and> objs_kept (store st) (store st') \<and>
     (state_ok env nm st \<longrightarrow> state_ok env nm st')"

definition keeps :: "env \<Rightarrow> type_def js_object \<Rightarrow> (build_state \<Rightarrow> 'a res) \<Rightarrow> bool" where
  "keeps env nm f \<longleftrightarrow> (\<forall>st x st'. f st = Inr (x, st') \<longrightarrow> step_ok env nm st st')"

definition keeps_resolver :: "env \<Rightarrow> type_def js_object \<Rightarrow> resolver \<Rightarrow> bool" where
  "keeps_resolver env nm rec \<longleftrightarrow>
     (\<forall>n nd st r st'. rec n nd st = Inr (r, st') \<longrightarrow>
        step_ok env nm st st' \<and> (state_ok env nm st \<longrightarrow> result_ok nm (store st') n r))"

text \<open>
  The deprecation reasons an object holds, each with the directives of its node: of the
  fields of an object or interface type whose field map has been pulled, and of the
  values of an enum type.
\<close>

fun field_reasons :: "named_type \<Rightarrow> (directive_node list option \<times> js_value) list" where
  "field_reasons (GraphQLObjectType n d desc (Forced fm) ifs) =
     map (\<lambda>kv. (f_directives (fd_node (snd kv)), fd_deprecationReason (snd kv))) fm"
| "field_reasons (GraphQLInterfaceType n d desc (Forced fm)) =
     map (\<lambda>kv. (f_directives (fd_node (snd kv)), fd_deprecationReason (snd kv))) fm"
| "field_reasons (GraphQLEnumType n d desc vs) =
     map (\<lambda>kv. (ev_directives (evd_node (snd kv)), evd_deprecationReason (snd kv))) vs"
| "field_reasons obj = []"

text \<open>
  The type references of an object with what they are resolved to: of the fields and
  their arguments, of the interfaces, of the member types and of the input fields (the
  members that have been pulled), each reference with the resolved type.
\<close>

definition input_references :: "input_value js_object \<Rightarrow> (type_node \<times> gql_type) list" where
  "input_references m =
     concat (map (\<lambda>kv. case in_node (snd kv) of
                          None \<Rightarrow> []
                        | Some iv \<Rightarrow> [(iv_type iv, in_type (snd kv))]) m)"

definition field_references :: "field_def js_object \<Rightarrow> (type_node \<times> gql_type) list" where
  "field_references fm =
     concat (map (\<lambda>kv. (f_type (fd_node (snd kv)), fd_type (snd kv)) #
                        input_references (fd_args (snd kv))) fm)"

fun references :: "named_type \<Rightarrow> (type_node \<times> gql_type) list" where
  "references (GraphQLObjectType n d desc fs ifs) =
     (case fs of Deferred \<Rightarrow> [] | Forced fm \<Rightarrow> field_references fm) @
     (case (ifs, d) of
        (Forced (Some ts), Some nd) \<Rightarrow>
          zip (map NamedType (case def_interfaces nd of None \<Rightarrow> [] | Some is \<Rightarrow> is)) ts
      | other \<Rightarrow> [])"
| "references (GraphQLInterfaceType n d desc fs) =
     (case fs of Deferred \<Rightarrow> [] | Forced fm \<Rightarrow> field_references fm)"
| "references (GraphQLUnionType n d desc ts) =
     (case d of None \<Rightarrow> [] | Some nd \<Rightarrow> zip (map NamedType (def_types nd)) ts)"
| "references (GraphQLInputObjectType n d desc fs) =
     (case fs of Deferred \<Rightarrow> [] | Forced m \<Rightarrow> input_references m)"
| "references obj = []"

text \<open>
  A directive made from a directive definition: the object \<open>getDirective\<close> constructed
  for it, with its name, description and locations, and arguments that are each made
  from an argument of the definition.
\<close>

definition directive_from :: "type_def js_object \<Rightarrow> named_type list \<Rightarrow> directive_def
    \<Rightarrow> gql_directive \<Rightarrow> bool" where
  "directive_from nm objs dd d \<longleftrightarrow>
     d_object d = ConstructedDirective dd \<and>
     d_name d = name_value (dd_name dd) \<and>
     d_description d = getDescription (dd_loc dd) \<and>
     d_locations d = map name_value (dd_locations dd) \<and>
     list_all (\<lambda>kv. \<exists>iv \<in> set (case dd_arguments dd of None \<Rightarrow> [] | Some ivs \<Rightarrow> ivs).
                  fst kv = name_value (iv_name iv) \<and>
                  type_ref_ok nm objs (iv_type iv) (in_type (snd kv)) \<and>
                  in_description (snd kv) = getDescription (iv_loc iv))
       (d_args d)"

text \<open>Every key of \<open>nodeMap\<close> is the name of the definition it holds.\<close>

definition keyed_by_name :: "type_def js_object \<Rightarrow> bool" where
  "keyed_by_name nm \<longleftrightarrow> (\<forall>(k, d) \<in> set nm. name_value (def_name d) = k)"

text \<open>The diagnostic of a document with no query root.\<close>

definition missing_query_diagnostic :: gql_error where
  "missing_query_diagnostic =
     newGQLError ''Must provide schema definition with query type or a type named Query.''
       None SEVERITY_error"

text \<open>
  The reading of the deprecation reason as the spec words it for a document that
  defines \<open>deprecated\<close> itself: as \<open>getDeprecationReason\<close>, with the argument set of a
  given directive in place of that of the built-in one.
\<close>

definition deprecation_reason_with ::
    "env \<Rightarrow> gql_directive \<Rightarrow> directive_node list option \<Rightarrow> js_error + js_value" where
  "deprecation_reason_with env deprecated ds =
     (case (case ds of
              None \<Rightarrow> None
            | Some l \<Rightarrow> find (\<lambda>directive. name_value (dir_name directive) = ''deprecated'') l) of
        None \<Rightarrow> Inr JSNull
      | Some deprecatedAST \<Rightarrow>
          (case getArgumentValues env deprecated deprecatedAST of
             Inl e \<Rightarrow> Inl e
           | Inr vals \<Rightarrow>
               Inr (case map_of vals ''reason'' of None \<Rightarrow> JSUndefined | Some v \<Rightarrow> v)))"

text \<open>The assignment to \<open>minSpaces\<close> in one turn of the loop of \<open>getDescription\<close>.\<close>

definition acc_min :: "nat option \<Rightarrow> nat \<Rightarrow> nat option" where
  "acc_min m k = (case m of None \<Rightarrow> Some k | Some j \<Rightarrow> if k < j then Some k else Some j)"

section \<open>Instances for the examples\<close>

definition name_of :: "string \<Rightarrow> name_node" where
  "name_of s = \<lparr>name_value = s, name_loc = None\<rparr>"

definition type_ref :: "string \<Rightarrow> named_type_node" where
  "type_ref s = \<lparr>nt_name = name_of s, nt_loc = None\<rparr>"

text \<open>
  The tokens before a field that starts on line 6: a comment on line 1, a blank line,
  and three full-line comments on lines 3 to 5.
\<close>

definition example_pre :: "token list" where
  "example_pre =
     [\<lparr>kind = SOF, line = 0, tok_value = []\<rparr>,
      \<lparr>kind = COMMENT, line = 1, tok_value = '' earlier block''\<rparr>]"

definition example_block :: "token list" where
  "example_block =
     [\<lparr>kind = COMMENT, line = 3, tok_value = ''   first''\<rparr>,
      \<lparr>kind = COMMENT, line = 4, tok_value = '' second''\<rparr>,
      \<lparr>kind = COMMENT, line = 5, tok_value = ''  third''\<rparr>]"

definition example_loc :: location where
  "example_loc =
     \<lparr>loc_start = 60, loc_end = 70, prevTokens = rev example_block @ rev example_pre,
      startToken = \<lparr>kind = NAME, line = 6, tok_value = ''field''\<rparr>\<rparr>"

text \<open>A location whose start token follows a token of its own line.\<close>

definition example_bare_loc :: location where
  "example_bare_loc =
     \<lparr>loc_start = 7, loc_end = 9,
      prevTokens = [\<lparr>kind = PUNCTUATOR, line = 1, tok_value = ''{''\<rparr>,
                    \<lparr>kind = SOF, line = 0, tok_value = []\<rparr>],
      startToken = \<lparr>kind = NAME, line = 1, tok_value = ''field''\<rparr>\<rparr>"

text \<open>
  An instance of the parameters: the placeholders are of the classes the spec names them
  after (the input and the output placeholder scalars); \<open>valueFromAST\<close> and
  \<open>getArgumentValues\<close> after graphql-js (a string literal coerces to its string, the
  values are those of the arguments the directive defines, a missing argument takes the
  default); and a \<open>GraphQLSchema\<close> that reports nothing of its own.
\<close>

definition reference_valueFromAST :: "value_node option \<Rightarrow> gql_type \<Rightarrow> js_error + js_value" where
  "reference_valueFromAST v t =
     Inr (case v of
            None \<Rightarrow> JSUndefined
          | Some (StringValue s) \<Rightarrow> JSString s
          | Some NullValue \<Rightarrow> JSNull
          | Some x \<Rightarrow> JSCoerced x)"

fun coerce_arguments :: "input_value js_object \<Rightarrow> argument_node list \<Rightarrow> js_value js_object
    \<Rightarrow> js_error + js_value js_object" where
  "coerce_arguments [] argNodes coerced = Inr coerced"
| "coerce_arguments ((name, argDef) # argDefs) argNodes coerced =
     (case find (\<lambda>a. name_value (arg_name a) = name) (rev argNodes) of
        None \<Rightarrow>
          if in_defaultValue argDef \<noteq> JSUndefined
          then coerce_arguments argDefs argNodes (obj_set name (in_defaultValue argDef) coerced)
          else if is_GraphQLNonNull (in_type argDef)
          then Inl (LibraryError ''Argument of required type was not provided.'')
          else coerce_arguments argDefs argNodes coerced
      | Some a \<Rightarrow>
          (case reference_valueFromAST (Some (arg_value a)) (in_type argDef) of
             Inl e \<Rightarrow> Inl e
           | Inr v \<Rightarrow>
               if v = JSUndefined then Inl (LibraryError ''Argument got invalid value.'')
               else coerce_arguments argDefs argNodes (obj_set name v coerced)))"

definition reference_getArgumentValues ::
    "gql_directive \<Rightarrow> directive_node \<Rightarrow> js_error + js_value js_object" where
  "reference_getArgumentValues d n =
     (case dir_arguments n of
        None \<Rightarrow> Inr []
      | Some argNodes \<Rightarrow> coerce_arguments (d_args d) argNodes [])"

definition reference_env :: env where
  "reference_env =
     \<lparr>placeholder_class =
        (\<lambda>k. case k of inputType \<Rightarrow> ScalarClass | outputType \<Rightarrow> ScalarClass
              | objectType \<Rightarrow> ObjectClass | interfaceType \<Rightarrow> InterfaceClass),
      valueFromAST = reference_valueFromAST,
      getArgumentValues = reference_getArgumentValues,
      GraphQLSchema_errors = (\<lambda>config objs. [])\<rparr>"

definition plain_field :: "string \<Rightarrow> type_node \<Rightarrow> field_node" where
  "plain_field n t =
     \<lparr>f_name = name_of n, f_arguments = [], f_type = t, f_directives = None, f_loc = None\<rparr>"

text \<open>\<open>schema { query: Missing }\<close>, with no definition of \<open>Missing\<close>.\<close>

definition missing_root_document :: ast where
  "missing_root_document =
     Document [SchemaDefinition
       \<lparr>operationTypes = [\<lparr>operation = ''query'', op_type = type_ref ''Missing''\<rparr>],
        schema_loc = None\<rparr>]"

text \<open>\<open>union A = B\<close> and \<open>union B = A\<close>.\<close>

definition cyclic_unions_document :: ast where
  "cyclic_unions_document =
     Document [TypeDefinition (UnionTypeDefinition (name_of ''A'') [type_ref ''B''] None),
               TypeDefinition (UnionTypeDefinition (name_of ''B'') [type_ref ''A''] None)]"

text \<open>\<open>type Query { f: constructor }\<close>, with no definition of \<open>constructor\<close>.\<close>

definition inherited_name_document :: ast where
  "inherited_name_document =
     Document [TypeDefinition (ObjectTypeDefinition (name_of ''Query'') None
       [plain_field ''f'' (NamedType (type_ref ''constructor''))] None)]"

text \<open>\<open>type Query { f: [constructor] }\<close>, with no definition of \<open>constructor\<close>.\<close>

definition wrapped_inherited_name_document :: ast where
  "wrapped_inherited_name_document =
     Document [TypeDefinition (ObjectTypeDefinition (name_of ''Query'') None
       [plain_field ''f'' (ListType (NamedType (type_ref ''constructor'')))] None)]"

text \<open>Three schema definitions, told apart by their locations.\<close>

definition schema_block :: "nat \<Rightarrow> schema_def" where
  "schema_block k =
     \<lparr>operationTypes = [],
      schema_loc = Some \<lparr>loc_start = 20 * k, loc_end = 20 * k + 10, prevTokens = [],
                         startToken = \<lparr>kind = NAME, line = k, tok_value = ''schema''\<rparr>\<rparr>\<rparr>"

definition three_schema_blocks :: "definition_node list" where
  "three_schema_blocks =
     [SchemaDefinition (schema_block 1), SchemaDefinition (schema_block 2),
      SchemaDefinition (schema_block 3)]"

text \<open>\<open>type A { b: B }\<close> and \<open>type B { a: A }\<close>, for any two names of types and of fields.\<close>

definition mutual_recursion_document :: "string \<Rightarrow> string \<Rightarrow> string \<Rightarrow> string \<Rightarrow> ast" where
  "mutual_recursion_document A b B a =
     Document
       [TypeDefinition (ObjectTypeDefinition (name_of A) None
          [plain_field b (NamedType (type_ref B))] None),
        TypeDefinition (ObjectTypeDefinition (name_of B) None
          [plain_field a (NamedType (type_ref A))] None)]"

text \<open>
  \<open>directive @deprecated(why: String) on FIELD_DEFINITION\<close> and
  \<open>type Query { f: Int @deprecated(reason: "x") }\<close>.
\<close>

definition deprecated_field :: field_node where
  "deprecated_field =
     \<lparr>f_name = name_of ''f'', f_arguments = [], f_type = NamedType (type_ref ''Int''),
      f_directives = Some [\<lparr>dir_name = name_of ''deprecated'',
        dir_arguments = Some [\<lparr>arg_name = name_of ''reason'', arg_value = StringValue ''x''\<rparr>]\<rparr>],
      f_loc = None\<rparr>"

definition deprecated_override_document :: ast where
  "deprecated_override_document =
     Document
       [DirectiveDefinition
          \<lparr>dd_name = name_of ''deprecated'',
           dd_arguments = Some [\<lparr>iv_name = name_of ''why'',
             iv_type = NamedType (type_ref ''String''), iv_defaultValue = None,
             iv_loc = None\<rparr>],
           dd_locations = [name_of ''FIELD_DEFINITION''], dd_loc = None\<rparr>,
        TypeDefinition (ObjectTypeDefinition (name_of ''Query'') None [deprecated_field] None)]"

text \<open>
  \<open>type T { x: Int }\<close>, \<open>scalar T\<close>, \<open>type Query { t: T }\<close> and \<open>enum T { V }\<close>:
  \<open>T\<close> defined three times, at three places.
\<close>

definition name_at :: "string \<Rightarrow> nat \<Rightarrow> name_node" where
  "name_at s k =
     \<lparr>name_value = s,
      name_loc = Some \<lparr>loc_start = 20 * k + 5, loc_end = 20 * k + 5 + length s,
        prevTokens = [], startToken = \<lparr>kind = NAME, line = k, tok_value = s\<rparr>\<rparr>\<rparr>"

definition duplicate_names_document :: "definition_node list" where
  "duplicate_names_document =
     [TypeDefinition (ObjectTypeDefinition (name_at ''T'' 1) None
        [plain_field ''x'' (NamedType (type_ref ''Int''))] None),
      TypeDefinition (ScalarTypeDefinition (name_at ''T'' 2) None),
      TypeDefinition (ObjectTypeDefinition (name_at ''Query'' 3) None
        [plain_field ''t'' (NamedType (type_ref ''T''))] None),
      TypeDefinition (EnumTypeDefinition (name_at ''T'' 4)
        [\<lparr>ev_name = name_of ''V'', ev_directives = None, ev_loc = None\<rparr>] None)]"

text \<open>
  \<open>scalar String\<close>, \<open>scalar String\<close> and \<open>type Query { s: String }\<close>: the name of
  a built-in type defined twice.
\<close>

definition builtin_name_document :: "definition_node list" where
  "builtin_name_document =
     [TypeDefinition (ScalarTypeDefinition (name_at ''String'' 1) None),
      TypeDefinition (ScalarTypeDefinition (name_at ''String'' 2) None),
      TypeDefinition (ObjectTypeDefinition (name_at ''Query'' 3) None
        [plain_field ''s'' (NamedType (type_ref ''String''))] None)]"

text \<open>Two schema definitions with another definition between them.\<close>

definition two_schema_blocks :: "definition_node list" where
  "two_schema_blocks =
     [SchemaDefinition (schema_block 1), OtherDefinition, SchemaDefinition (schema_block 2)]"

section \<open>Description extraction: properties\<close>

lemma foldl_acc_min_Some: "foldl acc_min (Some j) xs = Some (Min (insert j (set xs)))"
proof (induction xs arbitrary: j)
  case Nil
  then show ?case by simp
next
  case (Cons x xs)
  have "foldl acc_min (Some j) (x # xs) = foldl acc_min (Some (min x j)) xs"
    by (simp add: acc_min_def min_def)
  also have "\<dots> = Some (Min (insert (min x j) (set xs)))"
    by (rule Cons.IH)
  also have "Min (insert (min x j) (set xs)) = Min (insert j (set (x # xs)))"
    by (cases "xs = []") (simp_all add: min.commute min.assoc min.left_commute)
  finally show ?case .
qed

lemma foldl_acc_min_None: "xs \<noteq> [] \<Longrightarrow> foldl acc_min None xs = Some (Min (set xs))"
  by (cases xs) (simp_all add: acc_min_def foldl_acc_min_Some)

lemma last_line_block:
  assumes "map line bs = [l ..< l + length bs]" and "bs \<noteq> []"
  shows "line (last bs) = l + length bs - 1"
proof -
  have "line (last bs) = last (map line bs)"
    using assms(2) by (simp add: last_map)
  also have "\<dots> = last [l ..< l + length bs]"
    by (simp add: assms(1))
  also have "\<dots> = l + length bs - 1"
    using assms(2) by (cases bs) simp_all
  finally show ?thesis .
qed

text \<open>
  The loop on a block of comments on consecutive lines that ends on the line before
  \<open>nxt\<close>: every comment of the block is taken, and the token before the block stops the
  loop.
\<close>

lemma comment_loop_block:
  assumes "\<forall>c \<in> set block. kind c = COMMENT"
    and "map line block = [l ..< l + length block]"
    and "l + length block = line nxt"
    and "block \<noteq> [] \<longrightarrow> pre \<noteq> [] \<and> line (last pre) \<noteq> l"
    and "pre = [] \<or> kind (last pre) \<noteq> COMMENT \<or> line (last pre) + 1 \<noteq> l"
  shows "comment_loop (rev block @ rev pre) nxt cs m =
           (cs @ map tok_value (rev block),
            foldl acc_min m (map (\<lambda>c. leadingSpaces (tok_value c)) (rev block)))"
  using assms
proof (induction block arbitrary: nxt cs m rule: rev_induct)
  case Nil
  then show ?case
    by (cases "rev pre") (auto simp: loop_condition_def last_rev[symmetric] simp del: last_rev)
next
  case (snoc b bs)
  have lb: "line b = l + length bs" and lines: "map line bs = [l ..< l + length bs]"
    using snoc.prems(2) by (simp_all add: upt_Suc_append del: upt_Suc)
  have hdne: "line b \<noteq> line (hd (rev bs @ rev pre))"
  proof (cases "bs = []")
    case True
    with snoc.prems(4) lb show ?thesis by (simp add: hd_rev)
  next
    case False
    then have "hd (rev bs @ rev pre) = last bs"
      by (simp add: hd_rev)
    moreover have "line (last bs) = l + length bs - 1"
      using lines False by (rule last_line_block)
    ultimately show ?thesis
      using lb False by (cases bs) auto
  qed
  have q: "loop_condition b (rev bs @ rev pre) nxt"
    using snoc.prems lb hdne by (auto simp: loop_condition_def)
  have IH: "comment_loop (rev bs @ rev pre) b cs' m' =
      (cs' @ map tok_value (rev bs),
       foldl acc_min m' (map (\<lambda>c. leadingSpaces (tok_value c)) (rev bs)))" for cs' m'
    using snoc.prems lines lb by (intro snoc.IH) auto
  have e: "(case m of None \<Rightarrow> Some s | Some j \<Rightarrow> if s < j then Some s else Some j) =
      acc_min m s" for s
    by (simp add: acc_min_def)
  show ?case
    using q by (simp add: IH e Let_def)
qed

lemma leadingSpaces_takeWhile:
  "leadingSpaces s = length (takeWhile (\<lambda>c. c = CHR '' '') s)"
  by (induction s) auto

lemma takeWhile_spaces:
  "takeWhile (\<lambda>c. c = CHR '' '') s =
     replicate (length (takeWhile (\<lambda>c. c = CHR '' '') s)) (CHR '' '')"
  by (induction s) auto

lemma takeWhile_dropWhile_same: "takeWhile P (dropWhile P xs) = []"
  by (induction xs) auto

lemma strip_leading_spaces:
  assumes "m \<le> length (takeWhile (\<lambda>c. c = CHR '' '') s)"
  shows "s = replicate m (CHR '' '') @ drop m s"
proof -
  let ?k = "length (takeWhile (\<lambda>c. c = CHR '' '') s)"
  have "take m s = take m (take ?k s)"
    using assms by (simp add: min_def)
  also have "take ?k s = takeWhile (\<lambda>c. c = CHR '' '') s"
    by (induction s) auto
  also have "\<dots> = replicate ?k (CHR '' '')"
    by (rule takeWhile_spaces)
  also have "take m (replicate ?k (CHR '' '')) = replicate m (CHR '' '')"
    using assms by (simp add: min_def)
  finally have "take m s = replicate m (CHR '' '')" .
  then show ?thesis
    using append_take_drop_id[of m s] by simp
qed

text \<open>
  Claim C9.  Let the tokens before the start token of a node be \<open>pre\<close> followed by
  \<open>block\<close> (in the order of the text), where \<open>block\<close> consists of comments on
  consecutive lines, the last of them on the line before the node; the first comment of
  the block does not share its line with the token before it (the comments are
  full-line); and the token before the block is not a comment on the line just above
  the block (a blank line, or a token that is no comment, separates the block from what
  is earlier).  Let \<open>m\<close> be the least, over the lines of the block, of the number of
  spaces a line starts with (the length of its longest prefix of spaces).  Then the
  description is the lines of the block, in their order, each without its first \<open>m\<close>
  characters, joined by line feeds; every line of the block is \<open>m\<close> spaces followed
  by what is kept of it, so only spaces are taken off and each line keeps the rest of
  its indentation; and some line is left with no space at its start.  With no such
  block (\<open>block = []\<close>) no line is returned: the description is the empty join.
\<close>

theorem getDescription_comment_block:
  assumes "prevTokens loc = rev block @ rev pre"
    and "\<forall>c \<in> set block. kind c = COMMENT"
    and "map line block = [l ..< l + length block]"
    and "l + length block = line (startToken loc)"
    and "block \<noteq> [] \<longrightarrow> pre \<noteq> [] \<and> line (last pre) \<noteq> l"
    and "pre = [] \<or> kind (last pre) \<noteq> COMMENT \<or> line (last pre) + 1 \<noteq> l"
    and "m = Min (set (map (\<lambda>c. length (takeWhile (\<lambda>x. x = CHR '' '') (tok_value c))) block))"
  shows "getDescription (Some loc) =
           Some (join_lines (map (\<lambda>c. drop m (tok_value c)) block))
     \<and> (\<forall>c \<in> set block. tok_value c = replicate m (CHR '' '') @ drop m (tok_value c))
     \<and> (block \<noteq> [] \<longrightarrow>
          (\<exists>c \<in> set block. takeWhile (\<lambda>x. x = CHR '' '') (drop m (tok_value c)) = []))"
proof -
  let ?sp = "\<lambda>c. length (takeWhile (\<lambda>x. x = CHR '' '') (tok_value c))"
  have ls: "(\<lambda>c. leadingSpaces (tok_value c)) = ?sp"
    by (simp add: leadingSpaces_takeWhile)
  have desc: "getDescription (Some loc) =
      Some (join_lines (map (\<lambda>c. drop m (tok_value c)) block))"
  proof (cases "block = []")
    case True
    with assms(1-6) show ?thesis
      using comment_loop_block[of block l "startToken loc" pre "[]" None]
      by (simp add: getDescription_def)
  next
    case False
    have "foldl acc_min None (map (\<lambda>c. leadingSpaces (tok_value c)) (rev block)) =
        Some (Min (set (map (\<lambda>c. leadingSpaces (tok_value c)) block)))"
      using False foldl_acc_min_None[of "map (\<lambda>c. leadingSpaces (tok_value c)) (rev block)"]
      by simp
    then have m: "foldl acc_min None (map (\<lambda>c. leadingSpaces (tok_value c)) (rev block)) =
        Some m"
      by (simp only: ls assms(7))
    show ?thesis
      using comment_loop_block[OF assms(2-6), of "[]" None] assms(1) m
      by (simp add: getDescription_def slice_from_def rev_map[symmetric] comp_def)
  qed
  have le: "m \<le> ?sp c" if "c \<in> set block" for c
    using that by (simp add: assms(7))
  have strip: "\<forall>c \<in> set block. tok_value c = replicate m (CHR '' '') @ drop m (tok_value c)"
    using le by (blast intro: strip_leading_spaces)
  have attained: "\<exists>c \<in> set block. takeWhile (\<lambda>x. x = CHR '' '') (drop m (tok_value c)) = []"
    if ne: "block \<noteq> []"
  proof -
    have "m \<in> set (map ?sp block)"
      unfolding assms(7) using ne by (intro Min_in) simp_all
    then obtain c where c: "c \<in> set block" "?sp c = m" by auto
    have "dropWhile (\<lambda>x. x = CHR '' '') (tok_value c) = drop (?sp c) (tok_value c)"
      by (rule dropWhile_eq_drop)
    then have "takeWhile (\<lambda>x. x = CHR '' '') (drop m (tok_value c)) = []"
      using takeWhile_dropWhile_same[of "\<lambda>x. x = CHR '' ''" "tok_value c"] c(2) by simp
    with c(1) show ?thesis by (rule bexI[rotated])
  qed
  from desc strip attained show ?thesis by blast
qed

theorem getDescription_comment_block_witness:
  "getDescription (Some example_loc) =
     Some (''  first'' @ [CHR 0x0A] @ ''second'' @ [CHR 0x0A] @ '' third'')
   \<and> getDescription (Some (example_loc\<lparr>prevTokens := rev example_pre\<rparr>)) = Some []"
proof -
  have m: "(1::nat) = Min (set (map (\<lambda>c. length (takeWhile (\<lambda>x. x = CHR '' '') (tok_value c)))
      example_block))"
    by (simp add: example_block_def)
  have full: "getDescription (Some example_loc) =
      Some (''  first'' @ [CHR 0x0A] @ ''second'' @ [CHR 0x0A] @ '' third'')"
    using getDescription_comment_block[of example_loc example_block example_pre 3 1] m
    by (simp add: example_loc_def example_block_def example_pre_def)
  have none: "getDescription (Some (example_loc\<lparr>prevTokens := rev example_pre\<rparr>)) = Some []"
    using getDescription_comment_block[of "example_loc\<lparr>prevTokens := rev example_pre\<rparr>"
        "[]" example_pre 6 "Min {}"]
    by (simp add: example_loc_def example_pre_def)
  from full none show ?thesis by simp
qed

text \<open>
  Claim C10.  \<open>getDescription\<close> returns \<open>null\<close> exactly when the node has no \<open>loc\<close>.
  For a node with a \<open>loc\<close> whose start token has no token before it, or whose previous
  token does not satisfy the condition of the loop (no qualifying comment block), it
  returns the empty string.
\<close>

theorem getDescription_absent:
  "(getDescription loc = None \<longleftrightarrow> loc = None) \<and>
   (\<forall>l. loc = Some l \<and>
      (case prevTokens l of [] \<Rightarrow> True | t # ps \<Rightarrow> \<not> loop_condition t ps (startToken l))
      \<longrightarrow> getDescription loc = Some [])"
  by (auto simp: getDescription_def split: option.splits list.splits prod.splits)

theorem getDescription_absent_witness:
  "getDescription (Some example_bare_loc) = Some [] \<and> getDescription None = None"
proof -
  have "\<not> loop_condition \<lparr>kind = PUNCTUATOR, line = 1, tok_value = ''{''\<rparr>
      [\<lparr>kind = SOF, line = 0, tok_value = []\<rparr>] (startToken example_bare_loc)"
    by (simp add: loop_condition_def)
  then have "getDescription (Some example_bare_loc) = Some []"
    using getDescription_absent[of "Some example_bare_loc"]
    by (simp add: example_bare_loc_def)
  moreover have "getDescription None = None"
    using getDescription_absent[of None] by simp
  ultimately show ?thesis by simp
qed

section \<open>Wrapped types: properties\<close>

lemma wrappers_of_apply_modifiers:
  "wrappers_of (apply_modifiers ms (Named r)) = ms \<and>
   getNamedType (apply_modifiers ms (Named r)) = r"
  by (induction ms "Named r" rule: apply_modifiers.induct) auto

lemma isType_apply_modifiers:
  "isType env objs inner \<or> ms \<noteq> [] \<Longrightarrow> isType env objs (apply_modifiers ms inner)"
  by (cases "(ms, inner)" rule: apply_modifiers.cases) (simp_all add: isType_def)

text \<open>
  What \<open>buildWrappedType\<close> returns, when it returns, is the nesting of the wrappers of
  the reference, in its order, around the inner type.
\<close>

lemma buildWrappedType_Inr:
  "buildWrappedType env objs inner typeNode = Inr t \<Longrightarrow>
   t = apply_modifiers (modifiers typeNode) inner"
proof (induction typeNode arbitrary: t)
  case (NamedType n)
  then show ?case by simp
next
  case (ListType u)
  then show ?case
    by (auto simp: new_GraphQLList_def split: sum.splits if_splits)
next
  case (NonNullType u)
  then show ?case
    by (auto simp: new_GraphQLNonNull_def split: sum.splits if_splits)
qed

text \<open>
  It returns for a reference with no non-null directly inside a non-null, around an
  inner type that is a type of graphql-js (or around anything when the reference has no
  wrapper); and it throws for a reference with a wrapper around what is no type.
\<close>

lemma buildWrappedType_modifiers:
  assumes "no_nested_nonnull typeNode" and "\<not> is_GraphQLNonNull inner"
    and "isType env objs inner \<or> modifiers typeNode = []"
  shows "buildWrappedType env objs inner typeNode =
           Inr (apply_modifiers (modifiers typeNode) inner)"
  using assms
proof (induction typeNode)
  case (NamedType n)
  then show ?case by simp
next
  case (ListType u)
  then have "isType env objs (apply_modifiers (modifiers u) inner)"
    by (intro isType_apply_modifiers) simp
  with ListType show ?case
    by (simp add: new_GraphQLList_def)
next
  case (NonNullType u)
  then have ty: "isType env objs (apply_modifiers (modifiers u) inner)"
    by (intro isType_apply_modifiers) simp
  have nn: "\<not> is_GraphQLNonNull (apply_modifiers (modifiers u) inner)"
    using NonNullType.prems(1,2) by (cases u) simp_all
  have "no_nested_nonnull u"
    using NonNullType.prems(1) by (cases u) simp_all
  with NonNullType ty nn show ?case
    by (simp add: new_GraphQLNonNull_def)
qed

lemma buildWrappedType_not_a_type:
  assumes "\<not> isType env objs inner" and "modifiers typeNode \<noteq> []"
  shows "\<exists>msg. buildWrappedType env objs inner typeNode = Inl (Error msg)"
  using assms(2)
proof (induction typeNode)
  case (NamedType n)
  then show ?case by simp
next
  case (ListType u)
  show ?case
  proof (cases "modifiers u = []")
    case True
    then have "buildWrappedType env objs inner u = Inr inner"
      by (cases u) simp_all
    with assms(1) show ?thesis by (simp add: new_GraphQLList_def)
  next
    case False
    with ListType.IH show ?thesis by auto
  qed
next
  case (NonNullType u)
  show ?case
  proof (cases "modifiers u = []")
    case True
    then have "buildWrappedType env objs inner u = Inr inner"
      by (cases u) simp_all
    with assms(1) show ?thesis by (simp add: new_GraphQLNonNull_def)
  next
    case False
    with NonNullType.IH show ?thesis by auto
  qed
qed

text \<open>
  Claim C8 fails on a wrapped reference to \<open>constructor\<close>, a name with no definition:
  \<open>innerTypeMap[typeName]\<close> finds the member inherited from \<open>Object.prototype\<close>, which
  is no type, and \<open>new GraphQLList\<close> throws.  For \<open>type Query { f: [constructor] }\<close>
  the throw comes when the fields of \<open>Query\<close> are pulled, for every room of the call
  stack of at least one activation and all parameters: no resolved type is made for the
  reference and \<open>buildASTSchema\<close> returns nothing.
\<close>

theorem wrapped_inherited_name_throws:
  "buildASTSchema (Suc depth) env wrapped_inherited_name_document =
     Inl (Error ''Can only create List of a GraphQLType.'')"
  by code_simp

section \<open>Results with state\<close>

lemma bind_res_simps [simp]:
  "bind_res (Inl e) f = Inl e"
  "bind_res (Inr (x, st)) f = f x st"
  by (simp_all add: bind_res_def)

lemma lift_res_simps [simp]:
  "lift_res (Inl e) st = Inl e"
  "lift_res (Inr x) st = Inr (x, st)"
  by (simp_all add: lift_res_def)

lemma bind_res_Inr:
  "bind_res r f = Inr (y, st') \<longleftrightarrow> (\<exists>x st1. r = Inr (x, st1) \<and> f x st1 = Inr (y, st'))"
  by (cases r) (auto simp: bind_res_def)

lemma lift_res_Inr: "lift_res r st = Inr (x, st') \<longleftrightarrow> r = Inr x \<and> st' = st"
  by (cases r) auto

section \<open>The scan: properties\<close>

lemma scan_definitions_snoc:
  "scan_definitions (defs @ [d]) = scan_definition (scan_definitions defs) d"
  by (simp add: scan_definitions_def)

lemma schema_blocks_append:
  "schema_blocks (xs @ ys) = schema_blocks xs @ schema_blocks ys"
  by (induction xs rule: schema_blocks.induct) auto

lemma zip_tl_snoc:
  "xs \<noteq> [] \<Longrightarrow> zip (xs @ [y]) (tl (xs @ [y])) = zip xs (tl xs) @ [(last xs, y)]"
proof (induction xs)
  case Nil
  then show ?case by simp
next
  case (Cons x xs)
  then show ?case by (cases xs) auto
qed

lemma zip_tl_snoc':
  "xs \<noteq> [] \<Longrightarrow> zip (xs @ [y]) (tl xs @ [y]) = zip xs (tl xs) @ [(last xs, y)]"
  using zip_tl_snoc[of xs y] by simp

lemma scan_schema_blocks:
  "scanned_errors (scan_definitions defs) =
     map (\<lambda>(a, b). multiple_schema_diagnostic a b)
       (zip (schema_blocks defs) (tl (schema_blocks defs)))
   \<and> schemaDef (scan_definitions defs) =
       (if schema_blocks defs = [] then None else Some (last (schema_blocks defs)))"
proof (induction defs rule: rev_induct)
  case Nil
  then show ?case by (simp add: scan_definitions_def empty_partition_def)
next
  case (snoc d defs)
  show ?case
  proof (cases d)
    case (SchemaDefinition sd)
    with snoc show ?thesis
      by (simp add: scan_definitions_snoc schema_blocks_append zip_tl_snoc'
          multiple_schema_diagnostic_def)
  next
    case (TypeDefinition td)
    with snoc show ?thesis
      by (simp add: scan_definitions_snoc schema_blocks_append Let_def split: option.splits)
  next
    case (DirectiveDefinition dd)
    with snoc show ?thesis
      by (simp add: scan_definitions_snoc schema_blocks_append)
  next
    case OtherDefinition
    with snoc show ?thesis
      by (simp add: scan_definitions_snoc schema_blocks_append)
  qed
qed

lemma map_of_obj_set: "map_of (obj_set k v m) = (map_of m)(k \<mapsto> v)"
  by (induction m) (auto simp: fun_eq_iff)

lemma keys_obj_set:
  "map fst (obj_set k v m) = (if k \<in> fst ` set m then map fst m else map fst m @ [k])"
  by (induction m) force+

lemma set_obj_set_subset: "set (obj_set k v m) \<subseteq> insert (k, v) (set m)"
  by (induction m) (auto split: if_splits)

lemma type_definitions_append:
  "type_definitions (xs @ ys) = type_definitions xs @ type_definitions ys"
  by (induction xs rule: type_definitions.induct) auto

lemma directive_definitions_append:
  "directive_definitions (xs @ ys) = directive_definitions xs @ directive_definitions ys"
  by (induction xs rule: directive_definitions.induct) auto

lemma find_append:
  "find P (xs @ ys) = (case find P xs of None \<Rightarrow> find P ys | Some x \<Rightarrow> Some x)"
  by (induction xs) auto

lemma scan_type_definitions:
  "map_of (nodeMap (scan_definitions defs)) n =
     find (\<lambda>d. name_value (def_name d) = n) (type_definitions defs)
   \<and> map_of (nodeMapWithAllReferences (scan_definitions defs)) n =
       (if occurrences n defs = [] then None else Some (occurrences n defs))
   \<and> distinct (map fst (nodeMapWithAllReferences (scan_definitions defs)))
   \<and> keyed_by_name (nodeMap (scan_definitions defs))
   \<and> filter (\<lambda>d. name_value (def_name d) = n) (typeDefs (scan_definitions defs)) =
       take 1 (occurrences n defs)
   \<and> directiveDefs (scan_definitions defs) = directive_definitions defs"
proof (induction defs arbitrary: n rule: rev_induct)
  case Nil
  then show ?case
    by (simp add: scan_definitions_def empty_partition_def occurrences_def keyed_by_name_def)
next
  case (snoc d defs)
  show ?case
  proof (cases d)
    case (SchemaDefinition sd)
    with snoc show ?thesis
      by (simp add: scan_definitions_snoc type_definitions_append occurrences_def
          directive_definitions_append)
  next
    case (TypeDefinition td)
    let ?p = "scan_definitions defs"
    let ?k = "name_value (def_name td)"
    have IH: "map_of (nodeMap ?p) m =
         find (\<lambda>d. name_value (def_name d) = m) (type_definitions defs)"
      "map_of (nodeMapWithAllReferences ?p) m =
         (if occurrences m defs = [] then None else Some (occurrences m defs))"
      "distinct (map fst (nodeMapWithAllReferences ?p))"
      "keyed_by_name (nodeMap ?p)"
      "filter (\<lambda>d. name_value (def_name d) = m) (typeDefs ?p) = take 1 (occurrences m defs)"
      "directiveDefs ?p = directive_definitions defs" for m
      using snoc[of m] by simp_all
    have find_occ: "find (\<lambda>d. name_value (def_name d) = m) (type_definitions defs) = None
        \<longleftrightarrow> occurrences m defs = []" for m
      by (auto simp: occurrences_def find_None_iff filter_empty_conv)
    have keys: "k \<in> fst ` set (nodeMapWithAllReferences ?p) \<longleftrightarrow> occurrences k defs \<noteq> []" for k
      using IH(2)[of k] map_of_eq_None_iff[of "nodeMapWithAllReferences ?p" k]
      by (auto split: if_splits)
    have kb: "keyed_by_name (obj_set ?k td (nodeMap ?p))" if "map_of (nodeMap ?p) ?k = None"
    proof -
      show ?thesis
        using IH(4) set_obj_set_subset[of ?k td "nodeMap ?p"]
        by (auto simp: keyed_by_name_def)
    qed
    show ?thesis
    proof (cases "map_of (nodeMap ?p) ?k")
      case None
      then have occ: "occurrences ?k defs = []"
        using IH(1)[of ?k] find_occ[of ?k] by simp
      from None occ kb show ?thesis
        using IH(1)[of n] IH(2)[of n] IH(3) IH(4) IH(5)[of n] IH(6) IH(2)[of ?k] keys[of ?k] find_occ[of n]
        by (auto simp: TypeDefinition scan_definitions_snoc Let_def type_definitions_append
            directive_definitions_append occurrences_def map_of_obj_set keys_obj_set
            find_append split: option.splits)
    next
      case (Some first)
      then have occ: "occurrences ?k defs \<noteq> []"
        using IH(1)[of ?k] find_occ[of ?k] by simp
      from Some occ show ?thesis
        using IH(1)[of n] IH(2)[of n] IH(3) IH(4) IH(5)[of n] IH(6) IH(2)[of ?k] keys[of ?k] find_occ[of n]
        by (auto simp: TypeDefinition scan_definitions_snoc Let_def type_definitions_append
            directive_definitions_append occurrences_def map_of_obj_set keys_obj_set
            find_append Suc_le_eq split: option.splits)
    qed
  next
    case (DirectiveDefinition dd)
    with snoc show ?thesis
      by (simp add: scan_definitions_snoc type_definitions_append occurrences_def
          directive_definitions_append)
  next
    case OtherDefinition
    with snoc show ?thesis
      by (simp add: scan_definitions_snoc type_definitions_append occurrences_def
          directive_definitions_append)
  qed
qed

section \<open>What every step of a call keeps\<close>

lemma errors_extend_iff:
  "errors_extend st st' \<longleftrightarrow>
     (\<exists>new. errors st' = errors st @ new \<and> list_all resolution_diagnostic new)"
proof
  assume "errors_extend st st'"
  then have "errors st' = errors st @ drop (length (errors st)) (errors st')"
    and "list_all resolution_diagnostic (drop (length (errors st)) (errors st'))"
    by (simp_all add: errors_extend_def) (metis append_take_drop_id)
  then show "\<exists>new. errors st' = errors st @ new \<and> list_all resolution_diagnostic new"
    by blast
next
  assume "\<exists>new. errors st' = errors st @ new \<and> list_all resolution_diagnostic new"
  then show "errors_extend st st'" by (auto simp: errors_extend_def)
qed

subsection \<open>Stores that only grow\<close>

lemma objs_kept_refl [simp]: "objs_kept objs objs"
  by (simp add: objs_kept_def)

lemma objs_kept_trans: "objs_kept xs ys \<Longrightarrow> objs_kept ys zs \<Longrightarrow> objs_kept xs zs"
  by (simp add: objs_kept_def)

lemma objs_kept_append [simp]: "objs_kept objs (objs @ xs)"
  by (simp add: objs_kept_def nth_append)

lemma objs_kept_update:
  "header y = header (objs ! a) \<Longrightarrow> objs_kept objs (objs[a := y])"
  by (cases "a < length objs") (auto simp: objs_kept_def nth_list_update)

lemma resolved_ok_kept:
  "objs_kept objs objs' \<Longrightarrow> resolved_ok nm objs n r \<Longrightarrow> resolved_ok nm objs' n r"
  by (cases r) (auto simp: resolved_ok_def objs_kept_def made_from_def split: option.splits)

lemma result_ok_kept:
  "objs_kept objs objs' \<Longrightarrow> result_ok nm objs n r \<Longrightarrow> result_ok nm objs' n r"
  by (cases r) (auto simp: result_ok_def intro: resolved_ok_kept)

lemma type_ref_ok_kept:
  "objs_kept objs objs' \<Longrightarrow> type_ref_ok nm objs tn t \<Longrightarrow> type_ref_ok nm objs' tn t"
  by (auto simp: type_ref_ok_def intro: resolved_ok_kept)

lemma input_ok_kept:
  "objs_kept objs objs' \<Longrightarrow> input_ok nm objs ivs kv \<Longrightarrow> input_ok nm objs' ivs kv"
  by (auto simp: input_ok_def split: option.splits intro: type_ref_ok_kept)

lemma inputs_ok_kept:
  "objs_kept objs objs' \<Longrightarrow> list_all (input_ok nm objs ivs) m \<Longrightarrow>
   list_all (input_ok nm objs' ivs) m"
  by (auto simp: list_all_iff intro: input_ok_kept)

lemma field_ok_kept:
  "objs_kept objs objs' \<Longrightarrow> field_ok env nm objs fs kv \<Longrightarrow> field_ok env nm objs' fs kv"
  by (auto simp: field_ok_def intro: type_ref_ok_kept inputs_ok_kept)

lemma fields_ok_kept:
  "objs_kept objs objs' \<Longrightarrow> list_all (field_ok env nm objs fs) fm \<Longrightarrow>
   list_all (field_ok env nm objs' fs) fm"
  by (auto simp: list_all_iff intro: field_ok_kept)

lemma type_refs_ok_kept:
  "objs_kept objs objs' \<Longrightarrow>
   list_all2 (\<lambda>i t. type_ref_ok nm objs (NamedType i) t) is ts \<Longrightarrow>
   list_all2 (\<lambda>i t. type_ref_ok nm objs' (NamedType i) t) is ts"
  by (erule list_all2_mono) (rule type_ref_ok_kept)

lemma interfaces_ok_kept:
  "objs_kept objs objs' \<Longrightarrow> interfaces_ok nm objs is ts \<Longrightarrow> interfaces_ok nm objs' is ts"
  by (auto simp: interfaces_ok_def split: option.splits intro: type_refs_ok_kept)

lemma members_ok_kept:
  assumes "objs_kept objs objs'" and "members_ok env nm objs d obj"
  shows "members_ok env nm objs' d obj"
proof (cases obj)
  case (GraphQLObjectType n nd desc fs ifs)
  with assms show ?thesis
    by (cases fs; cases ifs) (auto intro: fields_ok_kept interfaces_ok_kept)
next
  case (GraphQLInterfaceType n nd desc fs)
  with assms show ?thesis by (cases fs) (auto intro: fields_ok_kept)
next
  case (GraphQLUnionType n nd desc ts)
  with assms show ?thesis by (auto intro: type_refs_ok_kept)
next
  case (GraphQLEnumType n nd desc vs)
  with assms show ?thesis by simp
next
  case (GraphQLScalarType n nd desc)
  then show ?thesis by simp
next
  case (GraphQLInputObjectType n nd desc fs)
  with assms show ?thesis by (cases fs) (auto intro: inputs_ok_kept)
qed

lemma object_ok_kept:
  "objs_kept objs objs' \<Longrightarrow> object_ok env nm objs obj \<Longrightarrow> object_ok env nm objs' obj"
  by (auto simp: object_ok_def split: option.splits intro: members_ok_kept)

lemma objects_ok_kept:
  "objs_kept objs objs' \<Longrightarrow> list_all (object_ok env nm objs) xs \<Longrightarrow>
   list_all (object_ok env nm objs') xs"
  by (auto simp: list_all_iff intro: object_ok_kept)

lemma cache_ok_kept:
  "objs_kept objs objs' \<Longrightarrow>
   list_all (\<lambda>kr. resolved_ok nm objs (fst kr) (snd kr)) m \<Longrightarrow>
   list_all (\<lambda>kr. resolved_ok nm objs' (fst kr) (snd kr)) m"
  by (auto simp: list_all_iff intro: resolved_ok_kept)

lemma directive_from_kept:
  "objs_kept objs objs' \<Longrightarrow> directive_from nm objs dd d \<Longrightarrow> directive_from nm objs' dd d"
  unfolding directive_from_def list_all_iff by (blast intro: type_ref_ok_kept)

subsection \<open>Steps\<close>

lemma state_ok_push_error [simp]: "state_ok env nm (push_error e st) = state_ok env nm st"
  by (simp add: state_ok_def push_error_def)

lemma store_push_error [simp]: "store (push_error e st) = store st"
  by (simp add: push_error_def)

lemma step_ok_refl [simp]: "step_ok env nm st st"
  by (simp add: step_ok_def errors_extend_iff)

lemma step_ok_trans: "step_ok env nm st st1 \<Longrightarrow> step_ok env nm st1 st2 \<Longrightarrow> step_ok env nm st st2"
  by (auto simp: step_ok_def errors_extend_iff intro: objs_kept_trans)

lemma step_ok_push:
  "resolution_diagnostic e \<Longrightarrow> step_ok env nm st (push_error e st)"
  by (simp add: step_ok_def errors_extend_iff) (simp add: push_error_def)

lemma step_ok_state: "step_ok env nm st st' \<Longrightarrow> state_ok env nm st \<Longrightarrow> state_ok env nm st'"
  by (simp add: step_ok_def)

lemma step_ok_objs: "step_ok env nm st st' \<Longrightarrow> objs_kept (store st) (store st')"
  by (simp add: step_ok_def)

lemma keepsI: "(\<And>st x st'. f st = Inr (x, st') \<Longrightarrow> step_ok env nm st st') \<Longrightarrow> keeps env nm f"
  by (simp add: keeps_def)

lemma keepsD: "keeps env nm f \<Longrightarrow> f st = Inr (x, st') \<Longrightarrow> step_ok env nm st st'"
  by (simp add: keeps_def)

lemma keeps_bind:
  assumes "keeps env nm f" and "\<And>x. keeps env nm (g x)"
  shows "keeps env nm (\<lambda>st. bind_res (f st) g)"
proof (rule keepsI)
  fix st y st'
  assume "bind_res (f st) g = Inr (y, st')"
  then obtain x st1 where "f st = Inr (x, st1)" "g x st1 = Inr (y, st')"
    by (auto simp: bind_res_Inr)
  then show "step_ok env nm st st'"
    using assms by (blast intro: step_ok_trans dest: keepsD)
qed

lemma keeps_map_res:
  assumes "\<And>x. keeps env nm (f x)"
  shows "keeps env nm (map_res f xs)"
proof (induction xs)
  case Nil
  show ?case by (rule keepsI) simp
next
  case (Cons x xs)
  show ?case
  proof (rule keepsI)
    fix st ys st'
    assume "map_res f (x # xs) st = Inr (ys, st')"
    then obtain y st1 zs where "f x st = Inr (y, st1)" "map_res f xs st1 = Inr (zs, st')"
      by (auto simp: bind_res_Inr)
    then show "step_ok env nm st st'"
      using assms Cons.IH by (blast intro: step_ok_trans dest: keepsD)
  qed
qed

text \<open>
  The results of \<open>map\<close>: what holds of each result in the store its call left still
  holds in the last store, when it is a property that a growing store keeps.
\<close>

lemma map_res_yields:
  assumes k: "\<And>x. keeps env nm (f x)"
    and r: "\<And>x st y st'. f x st = Inr (y, st') \<Longrightarrow> state_ok env nm st \<Longrightarrow> P x y (store st')"
    and s: "\<And>x y objs objs'. objs_kept objs objs' \<Longrightarrow> P x y objs \<Longrightarrow> P x y objs'"
    and run: "map_res f xs st = Inr (ys, st')"
    and ok: "state_ok env nm st"
  shows "list_all2 (\<lambda>x y. P x y (store st')) xs ys"
  using run ok
proof (induction xs arbitrary: st ys)
  case Nil
  then show ?case by simp
next
  case (Cons x xs)
  from Cons.prems(1) obtain y st1 zs where
    1: "f x st = Inr (y, st1)" and 2: "map_res f xs st1 = Inr (zs, st')" and ys: "ys = y # zs"
    by (auto simp: bind_res_Inr)
  have "step_ok env nm st st1"
    using k[of x] 1 by (rule keepsD)
  then have ok1: "state_ok env nm st1"
    using Cons.prems(2) by (rule step_ok_state)
  have rest: "list_all2 (\<lambda>x y. P x y (store st')) xs zs"
    using 2 ok1 by (rule Cons.IH)
  have "keeps env nm (map_res f xs)"
    using k by (rule keeps_map_res)
  then have "step_ok env nm st1 st'"
    using 2 by (rule keepsD)
  then have "objs_kept (store st1) (store st')"
    by (rule step_ok_objs)
  then have "P x y (store st')"
    using r[OF 1 Cons.prems(2)] by (rule s)
  with rest show ?case by (simp add: ys)
qed

lemma keeps_resolver_keeps: "keeps_resolver env nm rec \<Longrightarrow> keeps env nm (rec n nd)"
  by (auto simp: keeps_resolver_def keeps_def)

lemma keeps_resolver_result:
  "keeps_resolver env nm rec \<Longrightarrow> rec n nd st = Inr (r, st') \<Longrightarrow> state_ok env nm st \<Longrightarrow>
   result_ok nm (store st') n r"
  by (auto simp: keeps_resolver_def)

subsection \<open>The \<open>produce\<close> functions\<close>

lemma produceType_result:
  assumes kr: "keeps_resolver env nm rec"
    and run: "produceType env rec typeNode (Named (Placeholder k)) st = Inr (t, st')"
  shows "step_ok env nm st st'"
    and "state_ok env nm st \<Longrightarrow> type_ref_ok nm (store st') typeNode t"
proof -
  let ?n = "name_value (nt_name (getNamedTypeNode typeNode))"
  from run obtain r where
    r: "rec ?n (NamedTypeNode (getNamedTypeNode typeNode)) st = Inr (r, st')" and
    w: "buildWrappedType env (store st')
          (case r of None \<Rightarrow> Named (Placeholder k) | Some x \<Rightarrow> Named x) typeNode = Inr t"
    by (auto simp: produceType_def Let_def bind_res_Inr lift_res_Inr)
  show "step_ok env nm st st'"
    using keeps_resolver_keeps[OF kr] r by (rule keepsD)
  assume ok: "state_ok env nm st"
  have res: "result_ok nm (store st') ?n r"
    using kr r ok by (rule keeps_resolver_result)
  define x where "x = (case r of None \<Rightarrow> Placeholder k | Some y \<Rightarrow> y)"
  have inner: "(case r of None \<Rightarrow> Named (Placeholder k) | Some x \<Rightarrow> Named x) = Named x"
    by (simp add: x_def split: option.splits)
  have t: "t = apply_modifiers (modifiers typeNode) (Named x)"
    using w unfolding inner by (rule buildWrappedType_Inr)
  have "resolved_ok nm (store st') ?n x"
  proof (cases r)
    case None
    with res show ?thesis by (simp add: x_def result_ok_def resolved_ok_def)
  next
    case (Some y)
    with res show ?thesis by (simp add: x_def result_ok_def)
  qed
  then show "type_ref_ok nm (store st') typeNode t"
    by (simp add: type_ref_ok_def t wrappers_of_apply_modifiers)
qed

lemma produceInputType_result:
  assumes kr: "keeps_resolver env nm rec"
    and run: "produceInputType env rec typeNode st = Inr (t, st')"
  shows "step_ok env nm st st'"
    and "state_ok env nm st \<Longrightarrow> type_ref_ok nm (store st') typeNode t"
proof -
  from run obtain st1 where
    p: "produceType env rec typeNode (Named (Placeholder inputType)) st = Inr (t, st1)" and
    d: "st' = st1 \<or> st' = push_error (newGQLError ''Expected Input type.''
              (Some [NamedTypeNode (getNamedTypeNode typeNode)]) SEVERITY_error) st1"
    by (auto simp: produceInputType_def bind_res_Inr split: if_splits)
  have s1: "step_ok env nm st st1"
    using kr p by (rule produceType_result(1))
  have s2: "step_ok env nm st1 st'"
    using d by (auto intro!: step_ok_push simp: resolution_diagnostic_def newGQLError_def)
  show "step_ok env nm st st'"
    using s1 s2 by (rule step_ok_trans)
  assume "state_ok env nm st"
  with kr p have "type_ref_ok nm (store st1) typeNode t"
    by (rule produceType_result(2))
  moreover have "store st' = store st1"
    using d by auto
  ultimately show "type_ref_ok nm (store st') typeNode t" by simp
qed

lemma produceOutputType_result:
  assumes kr: "keeps_resolver env nm rec"
    and run: "produceOutputType env rec typeNode st = Inr (t, st')"
  shows "step_ok env nm st st'"
    and "state_ok env nm st \<Longrightarrow> type_ref_ok nm (store st') typeNode t"
proof -
  from run obtain st1 where
    p: "produceType env rec typeNode (Named (Placeholder outputType)) st = Inr (t, st1)" and
    d: "st' = st1 \<or> st' = push_error (newGQLError ''Expected Output type.''
              (Some [NamedTypeNode (getNamedTypeNode typeNode)]) SEVERITY_error) st1"
    by (auto simp: produceOutputType_def bind_res_Inr split: if_splits)
  have s1: "step_ok env nm st st1"
    using kr p by (rule produceType_result(1))
  have s2: "step_ok env nm st1 st'"
    using d by (auto intro!: step_ok_push simp: resolution_diagnostic_def newGQLError_def)
  show "step_ok env nm st st'"
    using s1 s2 by (rule step_ok_trans)
  assume "state_ok env nm st"
  with kr p have "type_ref_ok nm (store st1) typeNode t"
    by (rule produceType_result(2))
  moreover have "store st' = store st1"
    using d by auto
  ultimately show "type_ref_ok nm (store st') typeNode t" by simp
qed

lemma produceObjectType_result:
  assumes kr: "keeps_resolver env nm rec"
    and run: "produceObjectType env rec typeNode st = Inr (t, st')"
  shows "step_ok env nm st st'"
    and "state_ok env nm st \<Longrightarrow> type_ref_ok nm (store st') typeNode t"
proof -
  from run obtain st1 where
    p: "produceType env rec typeNode (Named (Placeholder objectType)) st = Inr (t, st1)" and
    d: "st' = st1 \<or> st' = push_error (newGQLError ''Expected Object type.''
              (Some [NamedTypeNode (getNamedTypeNode typeNode)]) SEVERITY_error) st1"
    by (auto simp: produceObjectType_def bind_res_Inr split: if_splits)
  have s1: "step_ok env nm st st1"
    using kr p by (rule produceType_result(1))
  have s2: "step_ok env nm st1 st'"
    using d by (auto intro!: step_ok_push simp: resolution_diagnostic_def newGQLError_def)
  show "step_ok env nm st st'"
    using s1 s2 by (rule step_ok_trans)
  assume "state_ok env nm st"
  with kr p have "type_ref_ok nm (store st1) typeNode t"
    by (rule produceType_result(2))
  moreover have "store st' = store st1"
    using d by auto
  ultimately show "type_ref_ok nm (store st') typeNode t" by simp
qed

lemma produceInterfaceType_result:
  assumes kr: "keeps_resolver env nm rec"
    and run: "produceInterfaceType env rec typeNode st = Inr (t, st')"
  shows "step_ok env nm st st'"
    and "state_ok env nm st \<Longrightarrow> type_ref_ok nm (store st') typeNode t"
proof -
  from run obtain st1 where
    p: "produceType env rec typeNode (Named (Placeholder interfaceType)) st = Inr (t, st1)" and
    d: "st' = st1 \<or> st' = push_error (newGQLError ''Expected Interface type.''
              (Some [NamedTypeNode (getNamedTypeNode typeNode)]) SEVERITY_error) st1"
    by (auto simp: produceInterfaceType_def bind_res_Inr split: if_splits)
  have s1: "step_ok env nm st st1"
    using kr p by (rule produceType_result(1))
  have s2: "step_ok env nm st1 st'"
    using d by (auto intro!: step_ok_push simp: resolution_diagnostic_def newGQLError_def)
  show "step_ok env nm st st'"
    using s1 s2 by (rule step_ok_trans)
  assume "state_ok env nm st"
  with kr p have "type_ref_ok nm (store st1) typeNode t"
    by (rule produceType_result(2))
  moreover have "store st' = store st1"
    using d by auto
  ultimately show "type_ref_ok nm (store st') typeNode t" by simp
qed

lemma keeps_produceInputType:
  "keeps_resolver env nm rec \<Longrightarrow> keeps env nm (produceInputType env rec typeNode)"
  by (rule keepsI) (rule produceInputType_result(1))

lemma keeps_produceOutputType:
  "keeps_resolver env nm rec \<Longrightarrow> keeps env nm (produceOutputType env rec typeNode)"
  by (rule keepsI) (rule produceOutputType_result(1))

lemma keeps_produceObjectType:
  "keeps_resolver env nm rec \<Longrightarrow> keeps env nm (produceObjectType env rec typeNode)"
  by (rule keepsI) (rule produceObjectType_result(1))

lemma keeps_produceInterfaceType:
  "keeps_resolver env nm rec \<Longrightarrow> keeps env nm (produceInterfaceType env rec typeNode)"
  by (rule keepsI) (rule produceInterfaceType_result(1))

subsection \<open>Maps of members\<close>

lemma set_keyValMap_fold:
  "set (foldl (\<lambda>m kv. if fst kv = ''__proto__'' then m else obj_set (fst kv) (snd kv) m) m0 kvs)
     \<subseteq> set m0 \<union> set kvs"
proof (induction kvs arbitrary: m0)
  case Nil
  show ?case by simp
next
  case (Cons kv kvs)
  have "set (obj_set (fst kv) (snd kv) m0) \<subseteq> insert kv (set m0)"
    using set_obj_set_subset[of "fst kv" "snd kv" m0] by simp
  with Cons[of "obj_set (fst kv) (snd kv) m0"] Cons[of m0] show ?case by auto
qed

lemma set_keyValMap: "set (keyValMap kvs) \<subseteq> set kvs"
  using set_keyValMap_fold[of "[]" kvs] by (simp add: keyValMap_def)

lemma list_all_keyValMap: "list_all P kvs \<Longrightarrow> list_all P (keyValMap kvs)"
  using set_keyValMap[of kvs] by (auto simp: list_all_iff)

lemma list_all2_right:
  assumes "list_all2 R xs ys" and "\<And>x y. x \<in> set xs \<Longrightarrow> R x y \<Longrightarrow> Q y"
  shows "list_all Q ys"
  using assms by (induction rule: list_all2_induct) auto

lemma makeInputValues_result:
  assumes kr: "keeps_resolver env nm rec"
    and run: "makeInputValues env rec vs st = Inr (m, st')"
  shows "step_ok env nm st st'"
    and "state_ok env nm st \<Longrightarrow> list_all (input_ok nm (store st') vs) m"
proof -
  let ?f = "\<lambda>v st0.
          bind_res (produceInputType env rec (iv_type v) st0) (\<lambda>t st1.
          bind_res (lift_res (valueFromAST env (iv_defaultValue v) t) st1) (\<lambda>dv st2.
          Inr ((name_value (iv_name v),
                \<lparr>in_type = t, in_node = Some v, in_description = getDescription (iv_loc v),
                 in_defaultValue = dv\<rparr>), st2)))"
  from run obtain kvs where kvs: "map_res ?f vs st = Inr (kvs, st')" and m: "m = keyValMap kvs"
    by (auto simp: makeInputValues_def bind_res_Inr)
  have kf: "keeps env nm (?f v)" for v
    by (intro keeps_bind keeps_produceInputType kr keepsI) (auto simp: lift_res_Inr)
  have "keeps env nm (map_res ?f vs)"
    using kf by (rule keeps_map_res)
  then show "step_ok env nm st st'"
    using kvs by (rule keepsD)
  assume ok: "state_ok env nm st"
  have "list_all2 (\<lambda>v kv. input_ok nm (store st') [v] kv) vs kvs"
  proof (rule map_res_yields[where f = ?f and P = "\<lambda>v kv objs. input_ok nm objs [v] kv",
        OF kf _ _ kvs ok])
    fix v st0 kv st3
    assume f: "?f v st0 = Inr (kv, st3)" and ok0: "state_ok env nm st0"
    from f obtain t dv where
      p: "produceInputType env rec (iv_type v) st0 = Inr (t, st3)" and
      kv: "kv = (name_value (iv_name v),
                \<lparr>in_type = t, in_node = Some v, in_description = getDescription (iv_loc v),
                 in_defaultValue = dv\<rparr>)"
      by (auto simp: bind_res_Inr lift_res_Inr)
    have "type_ref_ok nm (store st3) (iv_type v) t"
      using kr p ok0 by (rule produceInputType_result(2))
    then show "input_ok nm (store st3) [v] kv"
      by (simp add: input_ok_def kv)
  next
    fix v kv objs objs'
    assume "objs_kept objs objs'" "input_ok nm objs [v] kv"
    then show "input_ok nm objs' [v] kv" by (rule input_ok_kept)
  qed
  then have "list_all (input_ok nm (store st') vs) kvs"
    by (rule list_all2_right) (auto simp: input_ok_def split: option.splits)
  then show "list_all (input_ok nm (store st') vs) m"
    unfolding m by (rule list_all_keyValMap)
qed

lemma keeps_makeInputValues:
  "keeps_resolver env nm rec \<Longrightarrow> keeps env nm (makeInputValues env rec vs)"
  by (rule keepsI) (rule makeInputValues_result(1))

lemma makeFieldDefMap_result:
  assumes kr: "keeps_resolver env nm rec"
    and run: "makeFieldDefMap env rec d st = Inr (fm, st')"
  shows "step_ok env nm st st'"
    and "state_ok env nm st \<Longrightarrow> list_all (field_ok env nm (store st') (def_fields d)) fm"
proof -
  let ?f = "\<lambda>field st0.
          bind_res (produceOutputType env rec (f_type field) st0) (\<lambda>t st1.
          bind_res (makeInputValues env rec (f_arguments field) st1) (\<lambda>args st2.
          bind_res (lift_res (getDeprecationReason env (f_directives field)) st2) (\<lambda>reason st3.
          Inr ((name_value (f_name field),
                \<lparr>fd_type = t, fd_node = field, fd_description = getDescription (f_loc field),
                 fd_args = args, fd_deprecationReason = reason\<rparr>), st3))))"
  from run obtain kvs where
    kvs: "map_res ?f (def_fields d) st = Inr (kvs, st')" and fm: "fm = keyValMap kvs"
    by (auto simp: makeFieldDefMap_def bind_res_Inr)
  have kf: "keeps env nm (?f field)" for field
    by (intro keeps_bind keeps_produceOutputType keeps_makeInputValues kr keepsI)
      (auto simp: lift_res_Inr)
  have "keeps env nm (map_res ?f (def_fields d))"
    using kf by (rule keeps_map_res)
  then show "step_ok env nm st st'"
    using kvs by (rule keepsD)
  assume ok: "state_ok env nm st"
  have "list_all2 (\<lambda>field kv. field_ok env nm (store st') [field] kv) (def_fields d) kvs"
  proof (rule map_res_yields[where f = ?f and P = "\<lambda>field kv objs. field_ok env nm objs [field] kv",
        OF kf _ _ kvs ok])
    fix field st0 kv st3
    assume f: "?f field st0 = Inr (kv, st3)" and ok0: "state_ok env nm st0"
    from f obtain t st1 args reason where
      p: "produceOutputType env rec (f_type field) st0 = Inr (t, st1)" and
      a: "makeInputValues env rec (f_arguments field) st1 = Inr (args, st3)" and
      g: "getDeprecationReason env (f_directives field) = Inr reason" and
      kv: "kv = (name_value (f_name field),
                \<lparr>fd_type = t, fd_node = field, fd_description = getDescription (f_loc field),
                 fd_args = args, fd_deprecationReason = reason\<rparr>)"
      by (auto simp: bind_res_Inr lift_res_Inr)
    have ok1: "state_ok env nm st1"
      using produceOutputType_result(1)[OF kr p] ok0 by (rule step_ok_state)
    have "type_ref_ok nm (store st1) (f_type field) t"
      using kr p ok0 by (rule produceOutputType_result(2))
    moreover have "objs_kept (store st1) (store st3)"
      using makeInputValues_result(1)[OF kr a] by (rule step_ok_objs)
    ultimately have "type_ref_ok nm (store st3) (f_type field) t"
      by (rule type_ref_ok_kept[rotated])
    moreover have "list_all (input_ok nm (store st3) (f_arguments field)) args"
      using kr a ok1 by (rule makeInputValues_result(2))
    ultimately show "field_ok env nm (store st3) [field] kv"
      using g by (simp add: field_ok_def kv)
  next
    fix field kv objs objs'
    assume "objs_kept objs objs'" "field_ok env nm objs [field] kv"
    then show "field_ok env nm objs' [field] kv" by (rule field_ok_kept)
  qed
  then have "list_all (field_ok env nm (store st') (def_fields d)) kvs"
    by (rule list_all2_right) (auto simp: field_ok_def)
  then show "list_all (field_ok env nm (store st') (def_fields d)) fm"
    unfolding fm by (rule list_all_keyValMap)
qed

lemma keeps_makeFieldDefMap:
  "keeps_resolver env nm rec \<Longrightarrow> keeps env nm (makeFieldDefMap env rec d)"
  by (rule keepsI) (rule makeFieldDefMap_result(1))

lemma produceInterfaceTypes_result:
  assumes kr: "keeps_resolver env nm rec"
    and run: "map_res (\<lambda>iface. produceInterfaceType env rec (NamedType iface)) ifaces st =
                Inr (ts, st')"
  shows "step_ok env nm st st'"
    and "state_ok env nm st \<Longrightarrow>
         list_all2 (\<lambda>i t. type_ref_ok nm (store st') (NamedType i) t) ifaces ts"
proof -
  have kf: "keeps env nm (produceInterfaceType env rec (NamedType iface))" for iface
    using kr by (rule keeps_produceInterfaceType)
  have "keeps env nm (map_res (\<lambda>iface. produceInterfaceType env rec (NamedType iface)) ifaces)"
    using kf by (rule keeps_map_res)
  then show "step_ok env nm st st'"
    using run by (rule keepsD)
  assume ok: "state_ok env nm st"
  show "list_all2 (\<lambda>i t. type_ref_ok nm (store st') (NamedType i) t) ifaces ts"
  proof (rule map_res_yields[where f = "\<lambda>iface. produceInterfaceType env rec (NamedType iface)"
        and P = "\<lambda>i t objs. type_ref_ok nm objs (NamedType i) t", OF kf _ _ run ok])
    fix i st0 t st1
    assume "produceInterfaceType env rec (NamedType i) st0 = Inr (t, st1)" "state_ok env nm st0"
    with kr show "type_ref_ok nm (store st1) (NamedType i) t"
      by (rule produceInterfaceType_result(2))
  next
    fix i t objs objs'
    assume "objs_kept objs objs'" "type_ref_ok nm objs (NamedType i) t"
    then show "type_ref_ok nm objs' (NamedType i) t" by (rule type_ref_ok_kept)
  qed
qed

lemma produceObjectTypes_result:
  assumes kr: "keeps_resolver env nm rec"
    and run: "map_res (\<lambda>t. produceObjectType env rec (NamedType t)) members st = Inr (ts, st')"
  shows "step_ok env nm st st'"
    and "state_ok env nm st \<Longrightarrow>
         list_all2 (\<lambda>i t. type_ref_ok nm (store st') (NamedType i) t) members ts"
proof -
  have kf: "keeps env nm (produceObjectType env rec (NamedType m))" for m
    using kr by (rule keeps_produceObjectType)
  have "keeps env nm (map_res (\<lambda>t. produceObjectType env rec (NamedType t)) members)"
    using kf by (rule keeps_map_res)
  then show "step_ok env nm st st'"
    using run by (rule keepsD)
  assume ok: "state_ok env nm st"
  show "list_all2 (\<lambda>i t. type_ref_ok nm (store st') (NamedType i) t) members ts"
  proof (rule map_res_yields[where f = "\<lambda>t. produceObjectType env rec (NamedType t)"
        and P = "\<lambda>i t objs. type_ref_ok nm objs (NamedType i) t", OF kf _ _ run ok])
    fix i st0 t st1
    assume "produceObjectType env rec (NamedType i) st0 = Inr (t, st1)" "state_ok env nm st0"
    with kr show "type_ref_ok nm (store st1) (NamedType i) t"
      by (rule produceObjectType_result(2))
  next
    fix i t objs objs'
    assume "objs_kept objs objs'" "type_ref_ok nm objs (NamedType i) t"
    then show "type_ref_ok nm objs' (NamedType i) t" by (rule type_ref_ok_kept)
  qed
qed

lemma makeImplementedInterfaces_result:
  assumes kr: "keeps_resolver env nm rec"
    and run: "makeImplementedInterfaces env rec d st = Inr (ts, st')"
  shows "step_ok env nm st st'"
    and "state_ok env nm st \<Longrightarrow> interfaces_ok nm (store st') (def_interfaces d) ts"
proof -
  show "step_ok env nm st st'"
  proof (cases "def_interfaces d")
    case None
    with run show ?thesis by (simp add: makeImplementedInterfaces_def)
  next
    case (Some ifaces)
    with run obtain rs where
      "map_res (\<lambda>iface. produceInterfaceType env rec (NamedType iface)) ifaces st = Inr (rs, st')"
      by (auto simp: makeImplementedInterfaces_def bind_res_Inr)
    with kr show ?thesis by (rule produceInterfaceTypes_result(1))
  qed
  assume ok: "state_ok env nm st"
  show "interfaces_ok nm (store st') (def_interfaces d) ts"
  proof (cases "def_interfaces d")
    case None
    with run show ?thesis by (auto simp: makeImplementedInterfaces_def interfaces_ok_def)
  next
    case (Some ifaces)
    with run obtain rs where
      rs: "map_res (\<lambda>iface. produceInterfaceType env rec (NamedType iface)) ifaces st =
             Inr (rs, st')" and ts: "ts = Some rs"
      by (auto simp: makeImplementedInterfaces_def bind_res_Inr)
    have "list_all2 (\<lambda>i t. type_ref_ok nm (store st') (NamedType i) t) ifaces rs"
      using kr rs ok by (rule produceInterfaceTypes_result(2))
    then show ?thesis by (simp add: interfaces_ok_def Some ts)
  qed
qed

lemma keeps_makeImplementedInterfaces:
  "keeps_resolver env nm rec \<Longrightarrow> keeps env nm (makeImplementedInterfaces env rec d)"
  by (rule keepsI) (rule makeImplementedInterfaces_result(1))

subsection \<open>The builders\<close>

lemma header_set_node:
  "header (set_node d obj) = (type_name obj, Some d, class_of_instance obj, description_of obj)"
  by (cases obj) (simp_all add: header_def)

lemma members_ok_set_node [simp]:
  "members_ok env nm objs d (set_node d' obj) = members_ok env nm objs d obj"
  by (cases obj) simp_all

lemma type_name_header: "type_name obj = fst (header obj)"
  by (simp add: header_def)

lemma enum_values_result:
  assumes "map_res (\<lambda>enumValue st0.
          bind_res (lift_res (getDeprecationReason env (ev_directives enumValue)) st0)
            (\<lambda>reason st1.
          Inr ((name_value (ev_name enumValue),
                \<lparr>evd_description = getDescription (ev_loc enumValue),
                 evd_deprecationReason = reason, evd_node = enumValue\<rparr>), st1)))
          vs st = Inr (kvs, st')"
  shows "st' = st \<and> list_all2 (\<lambda>v kv. enum_value_ok env [v] kv) vs kvs"
  using assms
proof (induction vs arbitrary: kvs)
  case Nil
  then show ?case by simp
next
  case (Cons v vs)
  then show ?case
    by (auto simp: bind_res_Inr lift_res_Inr enum_value_ok_def)
qed

lemma keyed_by_nameD:
  "keyed_by_name nm \<Longrightarrow> map_of nm k = Some d \<Longrightarrow> name_value (def_name d) = k"
  by (auto simp: keyed_by_name_def dest!: map_of_SomeD)

lemma not_found_is_resolution_diagnostic:
  "resolution_diagnostic (newGQLError (''Type '' @ quoted n @ '' not found.'') ns sev)"
  by (simp add: resolution_diagnostic_def newGQLError_def quoted_def)

text \<open>
  \<open>makeSchemaDef\<close> resolves what the builder resolves at once (the members of a union),
  and then allocates one object, whose header, once \<open>typeDefNamed\<close> has set its node,
  is the one of the definition, and whose members are made from the definition.
\<close>

lemma makeSchemaDef_spec:
  assumes kr: "keeps_resolver env nm rec"
    and run: "makeSchemaDef env rec d st = Inr (a, st1)"
  shows "\<exists>st0 obj. step_ok env nm st st0 \<and> st1 = st0\<lparr>store := store st0 @ [obj]\<rparr> \<and>
      a = length (store st0) \<and>
      header (set_node d obj) =
        (name_value (def_name d), Some d, def_class d, getDescription (def_loc d)) \<and>
      (state_ok env nm st \<longrightarrow> members_ok env nm (store st0) d obj)"
proof (cases d)
  case (ScalarTypeDefinition n l)
  with run show ?thesis
    by (intro exI[of _ st] exI[of _ "GraphQLScalarType (name_value n) (Some d) (getDescription l)"])
      (auto simp: makeScalarDef_def alloc_def header_def)
next
  case (ObjectTypeDefinition n ifs fs l)
  with run show ?thesis
    by (intro exI[of _ st]
        exI[of _ "GraphQLObjectType (name_value n) (Some d) (getDescription l) Deferred Deferred"])
      (auto simp: makeTypeDef_def alloc_def header_def)
next
  case (InterfaceTypeDefinition n fs l)
  with run show ?thesis
    by (intro exI[of _ st]
        exI[of _ "GraphQLInterfaceType (name_value n) (Some d) (getDescription l) Deferred"])
      (auto simp: makeInterfaceDef_def alloc_def header_def)
next
  case (InputObjectTypeDefinition n fs l)
  with run show ?thesis
    by (intro exI[of _ st]
        exI[of _ "GraphQLInputObjectType (name_value n) (Some d) (getDescription l) Deferred"])
      (auto simp: makeInputObjectDef_def alloc_def header_def)
next
  case (EnumTypeDefinition n vs l)
  with run obtain kvs st0 where
    kvs: "map_res (\<lambda>enumValue st0.
          bind_res (lift_res (getDeprecationReason env (ev_directives enumValue)) st0)
            (\<lambda>reason st1.
          Inr ((name_value (ev_name enumValue),
                \<lparr>evd_description = getDescription (ev_loc enumValue),
                 evd_deprecationReason = reason, evd_node = enumValue\<rparr>), st1)))
          vs st = Inr (kvs, st0)" and
    al: "alloc (GraphQLEnumType (name_value n) None (getDescription l) (keyValMap kvs)) st0 =
           Inr (a, st1)"
    by (auto simp: makeEnumDef_def bind_res_Inr split: if_splits)
  from enum_values_result[OF kvs] have st0: "st0 = st"
    and vals: "list_all2 (\<lambda>v kv. enum_value_ok env [v] kv) vs kvs"
    by simp_all
  from vals have "list_all (enum_value_ok env vs) kvs"
    by (rule list_all2_right) (auto simp: enum_value_ok_def)
  then have "list_all (enum_value_ok env vs) (keyValMap kvs)"
    by (rule list_all_keyValMap)
  with al st0 EnumTypeDefinition show ?thesis
    by (intro exI[of _ st]
        exI[of _ "GraphQLEnumType (name_value n) None (getDescription l) (keyValMap kvs)"])
      (auto simp: alloc_def header_def)
next
  case (UnionTypeDefinition n ts l)
  with run obtain members st0 where
    m: "map_res (\<lambda>t. produceObjectType env rec (NamedType t)) ts st = Inr (members, st0)" and
    al: "alloc (GraphQLUnionType (name_value n) (Some d) (getDescription l) members) st0 =
           Inr (a, st1)"
    by (auto simp: makeUnionDef_def bind_res_Inr)
  have s0: "step_ok env nm st st0"
    using kr m by (rule produceObjectTypes_result(1))
  have "list_all2 (\<lambda>i t. type_ref_ok nm (store st0) (NamedType i) t) ts members"
    if "state_ok env nm st"
    using kr m that by (rule produceObjectTypes_result(2))
  with al s0 UnionTypeDefinition show ?thesis
    by (intro exI[of _ st0]
        exI[of _ "GraphQLUnionType (name_value n) (Some d) (getDescription l) members"])
      (auto simp: alloc_def header_def)
qed

lemma keeps_resolver_typeDefNamed_body:
  assumes kr: "keeps_resolver env nm rec" and kb: "keyed_by_name nm"
  shows "keeps_resolver env nm (typeDefNamed_body env nm rec)"
  unfolding keeps_resolver_def
proof (intro allI impI)
  fix n nd st r st'
  assume run: "typeDefNamed_body env nm rec n nd st = Inr (r, st')"
  show "step_ok env nm st st' \<and> (state_ok env nm st \<longrightarrow> result_ok nm (store st') n r)"
  proof (cases "innerTypeMap_get (innerTypeMap st) n")
    case hit: (Some x)
    with run have eq: "r = Some x" "st' = st"
      by (simp_all add: typeDefNamed_body_def)
    have "resolved_ok nm (store st) n x" if ok: "state_ok env nm st"
    proof (cases "map_of (innerTypeMap st) n")
      case None
      with hit have "x = Inherited n" "n \<in> set Object_prototype_keys"
        by (auto simp: innerTypeMap_get_def split: if_splits)
      then show ?thesis by (simp add: resolved_ok_def)
    next
      case (Some y)
      with hit have "y = x" by (simp add: innerTypeMap_get_def)
      with Some have "(n, x) \<in> set (innerTypeMap st)"
        by (auto dest: map_of_SomeD)
      with ok have "resolved_ok nm (store st) (fst (n, x)) (snd (n, x))"
        unfolding state_ok_def list_all_iff by blast
      then show ?thesis by simp
    qed
    then show ?thesis by (simp add: eq result_ok_def)
  next
    case None
    have fresh: "constructible n" if ok: "state_ok env nm st"
    proof -
      from None have "map_of (innerTypeMap st) n = None" "n \<notin> set Object_prototype_keys"
        by (auto simp: innerTypeMap_get_def split: option.splits if_splits)
      moreover have "map_of (innerTypeMap st) b = Some (Builtin b)"
        if "b \<in> set builtin_type_names" for b
        using ok that unfolding state_ok_def list_all_iff by blast
      ultimately show ?thesis
        by (auto simp: constructible_def)
    qed
    show ?thesis
    proof (cases "map_of nm n")
      case nf: None
      with None run have eq: "r = None"
        "st' = push_error (newGQLError (''Type '' @ quoted n @ '' not found.'')
                 (Some [nd]) SEVERITY_error) st"
        by (simp_all add: typeDefNamed_body_def)
      have "step_ok env nm st st'"
        unfolding eq(2) by (rule step_ok_push) (rule not_found_is_resolution_diagnostic)
      then show ?thesis using nf fresh by (simp add: eq(1) result_ok_def)
    next
      case (Some d)
      with None run obtain a st1 where
        mk: "makeSchemaDef env rec d st = Inr (a, st1)" and
        r: "r = Some (Instance a)" and
        st': "st' = st1\<lparr>store := (store st1)[a := set_node d (store st1 ! a)],
                     innerTypeMap := obj_set n (Instance a) (innerTypeMap st1)\<rparr>"
        by (auto simp: typeDefNamed_body_def bind_res_Inr)
      from makeSchemaDef_spec[OF kr mk] obtain st0 obj where
        s0: "step_ok env nm st st0" and
        st1: "st1 = st0\<lparr>store := store st0 @ [obj]\<rparr>" and
        a: "a = length (store st0)" and
        hd: "header (set_node d obj) =
               (name_value (def_name d), Some d, def_class d, getDescription (def_loc d))" and
        mem: "state_ok env nm st \<longrightarrow> members_ok env nm (store st0) d obj"
        by blast
      have key: "name_value (def_name d) = n"
        using kb Some by (rule keyed_by_nameD)
      have store': "store st' = store st0 @ [set_node d obj]"
        by (simp add: st' st1 a)
      have errs: "errors st' = errors st0"
        by (simp add: st' st1)
      have cache: "innerTypeMap st' = obj_set n (Instance a) (innerTypeMap st0)"
        by (simp add: st' st1)
      have mf: "made_from d (set_node d obj)"
        by (simp add: made_from_def hd)
      have tn: "type_name (set_node d obj) = n"
        using hd key by (simp add: type_name_header)
      have new_ok: "resolved_ok nm (store st') n (Instance a)" if "state_ok env nm st"
        using Some mf fresh[OF that] by (simp add: resolved_ok_def store' a)
      have kept0: "objs_kept (store st0) (store st')"
        by (simp add: store')
      have ok': "state_ok env nm st'" if ok: "state_ok env nm st"
      proof -
        have ok0: "state_ok env nm st0"
          using s0 ok by (rule step_ok_state)
        have "members_ok env nm (store st0) d (set_node d obj)"
          using mem ok by simp
        with kept0 have "members_ok env nm (store st') d (set_node d obj)"
          by (rule members_ok_kept)
        then have 1: "object_ok env nm (store st') (set_node d obj)"
          using Some mf fresh[OF ok] by (simp add: object_ok_def tn)
        have 2: "list_all (object_ok env nm (store st')) (store st0)"
          using kept0 ok0 unfolding state_ok_def by (blast intro: objects_ok_kept)
        have "list_all (\<lambda>kr. resolved_ok nm (store st') (fst kr) (snd kr)) (innerTypeMap st0)"
          using kept0 ok0 unfolding state_ok_def by (blast intro: cache_ok_kept)
        then have 3: "list_all (\<lambda>kr. resolved_ok nm (store st') (fst kr) (snd kr))
            (obj_set n (Instance a) (innerTypeMap st0))"
          using new_ok[OF ok] set_obj_set_subset[of n "Instance a" "innerTypeMap st0"]
          by (auto simp: list_all_iff)
        have "map_of (obj_set n (Instance a) (innerTypeMap st0)) b = Some (Builtin b)"
          if "b \<in> set builtin_type_names" for b
        proof -
          have "b \<noteq> n"
            using fresh[OF ok] that by (auto simp: constructible_def)
          moreover have "map_of (innerTypeMap st0) b = Some (Builtin b)"
            using ok0 that unfolding state_ok_def list_all_iff by blast
          ultimately show ?thesis by (simp add: map_of_obj_set)
        qed
        then have 4: "list_all (\<lambda>b. map_of (obj_set n (Instance a) (innerTypeMap st0)) b =
            Some (Builtin b)) builtin_type_names"
          by (simp add: list_all_iff)
        from 1 2 3 4 show ?thesis
          by (simp add: state_ok_def store' cache)
      qed
      have "errors_extend st st'"
        using s0 by (simp add: step_ok_def errors_extend_iff errs)
      moreover have "objs_kept (store st) (store st')"
        using step_ok_objs[OF s0] kept0 by (rule objs_kept_trans)
      ultimately have "step_ok env nm st st'"
        using ok' by (simp add: step_ok_def)
      moreover have "result_ok nm (store st') n r" if "state_ok env nm st"
        using new_ok[OF that] by (simp add: r result_ok_def)
      ultimately show ?thesis by simp
    qed
  qed
qed

lemma keeps_resolver_typeDefNamed:
  assumes "keyed_by_name nm"
  shows "keeps_resolver env nm (typeDefNamed depth env nm)"
proof (induction depth)
  case 0
  show ?case by (simp add: keeps_resolver_def)
next
  case (Suc depth)
  then show ?case
    using keeps_resolver_typeDefNamed_body[OF _ assms] by simp
qed

lemma getObjectType_result:
  assumes kr: "keeps_resolver env nm rec"
    and run: "getObjectType env rec typeNode st = Inr (r, st')"
  shows "step_ok env nm st st'"
    and "state_ok env nm st \<Longrightarrow>
         (\<exists>tn. typeNode = Some tn \<and> result_ok nm (store st') (name_value (def_name tn)) r)"
proof -
  from run obtain tn where tn: "typeNode = Some tn"
    by (cases typeNode) (simp_all add: getObjectType_def)
  with run obtain st1 where
    r: "rec (name_value (def_name tn)) (PlaceholderNode objectType) st = Inr (r, st1)" and
    d: "st' = st1 \<or> st' = push_error (newGQLError ''AST must provide object type.''
                        (Some [TypeDefNode tn]) SEVERITY_error) st1"
    by (auto simp: getObjectType_def bind_res_Inr split: if_splits)
  have s1: "step_ok env nm st st1"
    using keeps_resolver_keeps[OF kr] r by (rule keepsD)
  have s2: "step_ok env nm st1 st'"
    using d by (auto intro!: step_ok_push simp: resolution_diagnostic_def newGQLError_def)
  show "step_ok env nm st st'"
    using s1 s2 by (rule step_ok_trans)
  assume "state_ok env nm st"
  with kr r have "result_ok nm (store st1) (name_value (def_name tn)) r"
    by (rule keeps_resolver_result)
  moreover have "store st' = store st1"
    using d by auto
  ultimately show "\<exists>tn. typeNode = Some tn \<and> result_ok nm (store st') (name_value (def_name tn)) r"
    using tn by simp
qed

lemma keeps_root_type:
  assumes "keeps_resolver env nm rec"
  shows "keeps env nm (root_type env rec nm' typeName)"
proof (rule keepsI)
  fix st x st'
  assume "root_type env rec nm' typeName st = Inr (x, st')"
  then show "step_ok env nm st st'"
    using getObjectType_result(1)[OF assms]
    by (auto simp: root_type_def split: if_splits)
qed

subsection \<open>Directives\<close>

lemma getDirective_result:
  assumes kr: "keeps_resolver env nm rec"
    and run: "getDirective env rec dd st = Inr (d, st')"
  shows "step_ok env nm st st'"
    and "state_ok env nm st \<Longrightarrow> directive_from nm (store st') dd d"
proof -
  show "step_ok env nm st st'"
  proof (cases "dd_arguments dd")
    case None
    with run show ?thesis
      by (auto simp: getDirective_def lift_res_Inr)
  next
    case (Some ivs)
    with run obtain m where "makeInputValues env rec ivs st = Inr (m, st')"
      by (auto simp: getDirective_def bind_res_Inr lift_res_Inr)
    with kr show ?thesis by (rule makeInputValues_result(1))
  qed
  assume ok: "state_ok env nm st"
  show "directive_from nm (store st') dd d"
  proof (cases "dd_arguments dd")
    case None
    with run show ?thesis
      by (auto simp: getDirective_def lift_res_Inr new_GraphQLDirective_def directive_from_def)
  next
    case (Some ivs)
    with run obtain m where
      m: "makeInputValues env rec ivs st = Inr (m, st')" and
      d: "new_GraphQLDirective env (store st') dd (name_value (dd_name dd))
            (getDescription (dd_loc dd)) (map name_value (dd_locations dd)) (Some m) = Inr d"
      by (auto simp: getDirective_def bind_res_Inr lift_res_Inr)
    have "list_all (input_ok nm (store st') ivs) m"
      using kr m ok by (rule makeInputValues_result(2))
    then have "list_all (\<lambda>kv. \<exists>iv \<in> set ivs.
                  fst kv = name_value (iv_name iv) \<and>
                  type_ref_ok nm (store st') (iv_type iv) (in_type (snd kv)) \<and>
                  in_description (snd kv) = getDescription (iv_loc iv))
        (map (\<lambda>kv. (fst kv, (snd kv)\<lparr>in_node := None\<rparr>)) m)"
      by (auto simp: list_all_iff input_ok_def split: option.splits)
    with d Some show ?thesis
      by (auto simp: new_GraphQLDirective_def directive_from_def split: if_splits)
  qed
qed

lemma keeps_getDirective:
  "keeps_resolver env nm rec \<Longrightarrow> keeps env nm (getDirective env rec directiveNode)"
  by (rule keepsI) (rule getDirective_result(1))

subsection \<open>Pulling the deferred members\<close>

lemma force_thunk_Inr:
  "force_thunk f t st = Inr (t', st') \<Longrightarrow>
   (\<exists>x. t = Forced x \<and> t' = t \<and> st' = st) \<or>
   (\<exists>x. t = Deferred \<and> t' = Forced x \<and> f st = Inr (x, st'))"
  by (cases t) (auto simp: force_thunk_def bind_res_Inr)

lemma force_thunk_result:
  assumes k: "\<And>x st'. f st = Inr (x, st') \<Longrightarrow> step_ok env nm st st'"
    and r: "\<And>x st'. f st = Inr (x, st') \<Longrightarrow> state_ok env nm st \<Longrightarrow> P (store st') x"
    and run: "force_thunk f t st = Inr (t', st')"
  shows "step_ok env nm st st'"
    and "state_ok env nm st \<Longrightarrow> thunk_all (P (store st)) t \<Longrightarrow> thunk_all (P (store st')) t'"
  using force_thunk_Inr[OF run] k r by auto

lemma force_members_result:
  assumes kr: "keeps_resolver env nm rec"
    and run: "force_members env rec d obj st = Inr (obj', st')"
  shows "step_ok env nm st st'"
    and "header obj' = header obj"
    and "state_ok env nm st \<Longrightarrow> members_ok env nm (store st) d obj \<Longrightarrow>
         members_ok env nm (store st') d obj'"
proof -
  have all: "step_ok env nm st st' \<and> header obj' = header obj \<and>
      (state_ok env nm st \<longrightarrow> members_ok env nm (store st) d obj \<longrightarrow>
       members_ok env nm (store st') d obj')"
  proof (cases obj)
    case (GraphQLObjectType n nd desc fs ifs)
    with run obtain fs' st1 ifs' where
      f: "force_thunk (makeFieldDefMap env rec d) fs st = Inr (fs', st1)" and
      i: "force_thunk (makeImplementedInterfaces env rec d) ifs st1 = Inr (ifs', st')" and
      obj': "obj' = GraphQLObjectType n nd desc fs' ifs'"
      by (auto simp: bind_res_Inr)
    have s1: "step_ok env nm st st1"
      using f by (rule force_thunk_result(1)[rotated 2])
        (auto intro: makeFieldDefMap_result(1)[OF kr])
    have s2: "step_ok env nm st1 st'"
      using i by (rule force_thunk_result(1)[rotated 2])
        (auto intro: makeImplementedInterfaces_result(1)[OF kr])
    have mem: "members_ok env nm (store st') d obj'"
      if ok: "state_ok env nm st" and m: "members_ok env nm (store st) d obj"
    proof -
      have ok1: "state_ok env nm st1"
        using s1 ok by (rule step_ok_state)
      have "thunk_all (list_all (field_ok env nm (store st1) (def_fields d))) fs'"
        using f ok
      proof (rule force_thunk_result(2)[where P = "\<lambda>objs. list_all (field_ok env nm objs (def_fields d))",
            rotated 2])
        show "thunk_all (list_all (field_ok env nm (store st) (def_fields d))) fs"
          using m GraphQLObjectType by simp
      qed (auto intro: makeFieldDefMap_result[OF kr])
      then have 1: "thunk_all (list_all (field_ok env nm (store st') (def_fields d))) fs'"
        using step_ok_objs[OF s2] by (cases fs') (auto intro: fields_ok_kept)
      have "thunk_all (interfaces_ok nm (store st1) (def_interfaces d)) ifs"
        using m GraphQLObjectType step_ok_objs[OF s1]
        by (cases ifs) (auto intro: interfaces_ok_kept)
      with i ok1 have 2: "thunk_all (interfaces_ok nm (store st') (def_interfaces d)) ifs'"
        by (rule force_thunk_result(2)[where P = "\<lambda>objs. interfaces_ok nm objs (def_interfaces d)",
            rotated 2])
          (auto intro: makeImplementedInterfaces_result[OF kr])
      from 1 2 show ?thesis by (simp add: obj')
    qed
    from s1 s2 have "step_ok env nm st st'" by (rule step_ok_trans)
    with mem show ?thesis by (simp add: obj' GraphQLObjectType header_def)
  next
    case (GraphQLInterfaceType n nd desc fs)
    with run obtain fs' where
      f: "force_thunk (makeFieldDefMap env rec d) fs st = Inr (fs', st')" and
      obj': "obj' = GraphQLInterfaceType n nd desc fs'"
      by (auto simp: bind_res_Inr)
    have s1: "step_ok env nm st st'"
      using f by (rule force_thunk_result(1)[rotated 2])
        (auto intro: makeFieldDefMap_result(1)[OF kr])
    have "thunk_all (list_all (field_ok env nm (store st') (def_fields d))) fs'"
      if ok: "state_ok env nm st" and m: "members_ok env nm (store st) d obj"
      using f ok
    proof (rule force_thunk_result(2)[where P = "\<lambda>objs. list_all (field_ok env nm objs (def_fields d))",
          rotated 2])
      show "thunk_all (list_all (field_ok env nm (store st) (def_fields d))) fs"
        using m GraphQLInterfaceType by simp
    qed (auto intro: makeFieldDefMap_result[OF kr])
    with s1 show ?thesis by (simp add: obj' GraphQLInterfaceType header_def)
  next
    case (GraphQLInputObjectType n nd desc fs)
    with run obtain fs' where
      f: "force_thunk (makeInputValues env rec (def_input_fields d)) fs st = Inr (fs', st')" and
      obj': "obj' = GraphQLInputObjectType n nd desc fs'"
      by (auto simp: bind_res_Inr)
    have s1: "step_ok env nm st st'"
      using f by (rule force_thunk_result(1)[rotated 2])
        (auto intro: makeInputValues_result(1)[OF kr])
    have "thunk_all (list_all (input_ok nm (store st') (def_input_fields d))) fs'"
      if ok: "state_ok env nm st" and m: "members_ok env nm (store st) d obj"
      using f ok
    proof (rule force_thunk_result(2)[where P = "\<lambda>objs. list_all (input_ok nm objs (def_input_fields d))",
          rotated 2])
      show "thunk_all (list_all (input_ok nm (store st) (def_input_fields d))) fs"
        using m GraphQLInputObjectType by simp
    qed (auto intro: makeInputValues_result[OF kr])
    with s1 show ?thesis by (simp add: obj' GraphQLInputObjectType header_def)
  next
    case (GraphQLUnionType n nd desc ts)
    with run show ?thesis by auto
  next
    case (GraphQLEnumType n nd desc vs)
    with run show ?thesis by auto
  next
    case (GraphQLScalarType n nd desc)
    with run show ?thesis by auto
  qed
  from all show "step_ok env nm st st'" by simp
  from all show "header obj' = header obj" by simp
  from all show "state_ok env nm st \<Longrightarrow> members_ok env nm (store st) d obj \<Longrightarrow>
      members_ok env nm (store st') d obj'" by simp
qed

lemma list_all_update: "list_all P xs \<Longrightarrow> P y \<Longrightarrow> list_all P (xs[a := y])"
  using set_update_subset_insert[of xs a y] by (auto simp: list_all_iff)

lemma keeps_force_instance:
  assumes kr: "keeps_resolver env nm rec"
  shows "keeps env nm (force_instance env rec a)"
proof (rule keepsI)
  fix st x st'
  assume run: "force_instance env rec a st = Inr (x, st')"
  show "step_ok env nm st st'"
  proof (cases "a < length (store st) \<and> node_of (store st ! a) \<noteq> None")
    case False
    with run show ?thesis
      by (auto simp: force_instance_def split: if_splits option.splits)
  next
    case True
    then obtain d where d: "node_of (store st ! a) = Some d" and a: "a < length (store st)"
      by auto
    with run obtain obj st1 where
      fm: "force_members env rec d (store st ! a) st = Inr (obj, st1)" and
      st': "st' = st1\<lparr>store := (store st1)[a := obj]\<rparr>"
      by (auto simp: force_instance_def bind_res_Inr)
    have s1: "step_ok env nm st st1"
      using kr fm by (rule force_members_result(1))
    have k1: "objs_kept (store st) (store st1)"
      using s1 by (rule step_ok_objs)
    have a1: "a < length (store st1)"
      using a k1 by (simp add: objs_kept_def)
    have hd: "header obj = header (store st1 ! a)"
      using force_members_result(2)[OF kr fm] k1 a by (simp add: objs_kept_def)
    have k2: "objs_kept (store st1) (store st')"
      unfolding st' using hd by (simp add: objs_kept_update)
    have ok': "state_ok env nm st'" if ok: "state_ok env nm st"
    proof -
      have ok1: "state_ok env nm st1"
        using s1 ok by (rule step_ok_state)
      have oa: "object_ok env nm (store st) (store st ! a)"
        using ok a unfolding state_ok_def list_all_length by blast
      then have look: "map_of nm (type_name (store st ! a)) = Some d"
        using d by (auto simp: object_ok_def made_from_def header_def split: option.splits)
      with oa have "members_ok env nm (store st) d (store st ! a)"
        by (simp add: object_ok_def)
      with kr fm ok have "members_ok env nm (store st1) d obj"
        by (rule force_members_result(3))
      with k2 have m: "members_ok env nm (store st') d obj"
        by (rule members_ok_kept)
      have "header obj = header (store st ! a)"
        using kr fm by (rule force_members_result(2))
      with oa look have "made_from d obj" "type_name obj = type_name (store st ! a)"
        by (simp_all add: object_ok_def made_from_def type_name_header)
      with m look oa have 1: "object_ok env nm (store st') obj"
        by (simp add: object_ok_def)
      have "list_all (object_ok env nm (store st')) (store st1)"
        using k2 ok1 unfolding state_ok_def by (blast intro: objects_ok_kept)
      with 1 have 2: "list_all (object_ok env nm (store st')) ((store st1)[a := obj])"
        by (rule list_all_update[rotated])
      have 3: "list_all (\<lambda>kr. resolved_ok nm (store st') (fst kr) (snd kr)) (innerTypeMap st1)"
        using k2 ok1 unfolding state_ok_def by (blast intro: cache_ok_kept)
      have 4: "list_all (\<lambda>b. map_of (innerTypeMap st1) b = Some (Builtin b))
          builtin_type_names"
        using ok1 by (simp add: state_ok_def)
      from 2 3 4 show ?thesis
        unfolding state_ok_def by (simp add: st')
    qed
    have "errors_extend st st'"
      using s1 by (simp add: step_ok_def errors_extend_iff st')
    moreover have "objs_kept (store st) (store st')"
      using k1 k2 by (rule objs_kept_trans)
    ultimately show ?thesis
      using ok' by (simp add: step_ok_def)
  qed
qed

lemma keeps_force_all:
  assumes "keeps_resolver env nm rec"
  shows "keeps env nm (force_all env rec as)"
proof (induction as)
  case Nil
  show ?case by (rule keepsI) simp
next
  case (Cons a as)
  have "keeps env nm (\<lambda>st. bind_res (force_instance env rec a st)
      (\<lambda>u st1. force_all env rec as st1))"
    using Cons.IH by (intro keeps_bind keeps_force_instance assms)
  then show ?case by (simp add: keeps_def)
qed

lemma GraphQLSchema_result:
  assumes "keeps_resolver env nm rec"
    and "GraphQLSchema env rec config st = Inr (schema, st')"
  shows "step_ok env nm st st' \<and> schema_store schema = store st' \<and>
     directives schema = directives config \<and> types schema = types config \<and>
     query schema = query config \<and>
     schema_errors schema = GraphQLSchema_errors env config (store st')"
proof -
  from assms(2) obtain u where
    fa: "force_all env rec [0 ..< length (store st)] st = Inr (u, st')" and
    sch: "schema = \<lparr>query = query config, mutation = mutation config,
           subscription = subscription config, types = types config,
           directives = directives config, config_nodeMap = config_nodeMap config,
           schema_store = store st',
           schema_errors = GraphQLSchema_errors env config (store st')\<rparr>"
    by (auto simp: GraphQLSchema_def bind_res_Inr)
  have "step_ok env nm st st'"
    using keeps_force_all[OF assms(1)] fa by (rule keepsD)
  then show ?thesis by (simp add: sch)
qed

lemma duplicate_name_message_inj [simp]:
  "duplicate_name_message a = duplicate_name_message b \<longleftrightarrow> a = b"
  by (simp add: duplicate_name_message_def quoted_def)

lemma duplicate_name_errors_Cons:
  "duplicate_name_errors ((k, ds) # refs) =
     (if length ds > 1 then [duplicate_name_diagnostic k ds] else []) @
     duplicate_name_errors refs"
  by (simp add: duplicate_name_errors_def duplicate_name_diagnostic_def
      duplicate_name_message_def)

lemma duplicate_name_errors_filter:
  assumes "distinct (map fst refs)"
  shows "filter (\<lambda>e. message e = duplicate_name_message n) (duplicate_name_errors refs) =
     (case map_of refs n of
        None \<Rightarrow> []
      | Some ds \<Rightarrow> if length ds > 1 then [duplicate_name_diagnostic n ds] else [])"
  using assms
proof (induction refs)
  case Nil
  then show ?case by (simp add: duplicate_name_errors_def)
next
  case (Cons kv refs)
  obtain k ds where kv: "kv = (k, ds)" by (cases kv)
  have rest: "map_of refs k = None"
    using Cons.prems kv by (simp add: map_of_eq_None_iff)
  show ?case
    using Cons rest
    by (auto simp: kv duplicate_name_errors_Cons duplicate_name_diagnostic_def newGQLError_def)
qed

lemma resolution_not_duplicate:
  "resolution_diagnostic e \<Longrightarrow> message e \<noteq> duplicate_name_message n"
  by (auto simp: resolution_diagnostic_def duplicate_name_message_def)

lemma resolution_not_multiple_schema:
  "resolution_diagnostic e \<Longrightarrow> message e \<noteq> ''Must provide only one schema definition.''"
  by (auto simp: resolution_diagnostic_def)

subsection \<open>The whole build\<close>

lemma state_ok_initial:
  "state_ok env nm \<lparr>errors = es, innerTypeMap = initial_innerTypeMap, store = []\<rparr>"
  by (simp add: state_ok_def initial_innerTypeMap_def resolved_ok_def list_all_iff)
    (simp add: builtin_type_names_def)

text \<open>
  When \<open>buildASTSchema\<close> returns: the diagnostics are those of the scan, of the names
  defined more than once and of the missing query root, then diagnostics of type
  resolution, then those of the schema; every object of the schema is made from the
  definition \<open>nodeMap\<close> holds for its name; the directives are those made from the
  directive definitions, in their order, with the built-in ones added; and \<open>types\<close>
  holds what \<open>typeDefNamed\<close> returned for the definitions of \<open>typeDefs\<close>.
\<close>

lemma buildASTSchema_returns:
  assumes "buildASTSchema depth env (Document defs) = Inr (schema, errs)"
  shows "\<exists>new ds built.
     errs = scanned_errors (scan_definitions defs) @
            duplicate_name_errors (nodeMapWithAllReferences (scan_definitions defs)) @
            (if truthy (fst (operation_type_names (scan_definitions defs))) then []
             else [missing_query_diagnostic]) @
            new @ schema_errors schema
     \<and> list_all resolution_diagnostic new
     \<and> list_all (object_ok env (nodeMap (scan_definitions defs)) (schema_store schema))
         (schema_store schema)
     \<and> directives schema = add_specified_directives ds
     \<and> list_all2 (directive_from (nodeMap (scan_definitions defs)) (schema_store schema))
         (directive_definitions defs) ds
     \<and> types schema =
         concat (map (\<lambda>t. case t of None \<Rightarrow> [] | Some r \<Rightarrow> [r]) built) @
         map Builtin [''String'', ''Int'', ''Float'', ''Boolean'', ''ID'']
     \<and> list_all2 (\<lambda>d r. result_ok (nodeMap (scan_definitions defs)) (schema_store schema)
                          (name_value (def_name d)) r)
         (typeDefs (scan_definitions defs)) built"
proof -
  let ?p = "scan_definitions defs"
  let ?nm = "nodeMap ?p"
  let ?rec = "typeDefNamed depth env ?nm"
  obtain q m s where names: "operation_type_names ?p = (q, m, s)"
    by (cases "operation_type_names ?p")
  let ?errors2 = "scanned_errors ?p @ duplicate_name_errors (nodeMapWithAllReferences ?p) @
      (if truthy q then [] else [missing_query_diagnostic])"
  let ?st0 = "\<lparr>errors = ?errors2, innerTypeMap = initial_innerTypeMap, store = []\<rparr>"
  let ?f = "\<lambda>d. ?rec (name_value (def_name d)) (TypeDefNode d)"
  have kr: "keeps_resolver env ?nm ?rec"
    using scan_type_definitions[of defs] by (intro keeps_resolver_typeDefNamed) simp
  from assms names obtain built st1 ds st2 qr st3 mr st4 sr st5 st6 config where
    r1: "map_res ?f (typeDefs ?p) ?st0 = Inr (built, st1)" and
    r2: "map_res (getDirective env ?rec) (directiveDefs ?p) st1 = Inr (ds, st2)" and
    r3: "root_type env ?rec ?nm q st2 = Inr (qr, st3)" and
    r4: "root_type env ?rec ?nm m st3 = Inr (mr, st4)" and
    r5: "root_type env ?rec ?nm s st4 = Inr (sr, st5)" and
    r6: "GraphQLSchema env ?rec config st5 = Inr (schema, st6)" and
    cfg: "directives config = add_specified_directives ds"
      "types config = concat (map (\<lambda>t. case t of None \<Rightarrow> [] | Some r \<Rightarrow> [r]) built) @
         map Builtin [''String'', ''Int'', ''Float'', ''Boolean'', ''ID'']" and
    errs: "errs = errors st6 @ schema_errors schema"
    by (auto simp: buildASTSchema_def Let_def bind_res_Inr missing_query_diagnostic_def
        split: sum.splits if_splits)
  have ok0: "state_ok env ?nm ?st0"
    by (rule state_ok_initial)
  have kf: "keeps env ?nm (?f d)" for d
    using kr by (rule keeps_resolver_keeps)
  have "keeps env ?nm (map_res ?f (typeDefs ?p))"
    using kf by (rule keeps_map_res)
  then have s1: "step_ok env ?nm ?st0 st1"
    using r1 by (rule keepsD)
  have b1: "list_all2 (\<lambda>d r. result_ok ?nm (store st1) (name_value (def_name d)) r)
      (typeDefs ?p) built"
  proof (rule map_res_yields[where f = ?f
        and P = "\<lambda>d r objs. result_ok ?nm objs (name_value (def_name d)) r", OF kf _ _ r1 ok0])
    fix d st r st'
    assume "?f d st = Inr (r, st')" "state_ok env ?nm st"
    with kr show "result_ok ?nm (store st') (name_value (def_name d)) r"
      by (rule keeps_resolver_result)
  next
    fix d r objs objs'
    assume "objs_kept objs objs'" "result_ok ?nm objs (name_value (def_name d)) r"
    then show "result_ok ?nm objs' (name_value (def_name d)) r" by (rule result_ok_kept)
  qed
  have ok1: "state_ok env ?nm st1"
    using s1 ok0 by (rule step_ok_state)
  have kd: "keeps env ?nm (getDirective env ?rec dd)" for dd
    using kr by (rule keeps_getDirective)
  have "keeps env ?nm (map_res (getDirective env ?rec) (directiveDefs ?p))"
    using kd by (rule keeps_map_res)
  then have s2: "step_ok env ?nm st1 st2"
    using r2 by (rule keepsD)
  have d2: "list_all2 (\<lambda>dd d. directive_from ?nm (store st2) dd d) (directiveDefs ?p) ds"
  proof (rule map_res_yields[where f = "getDirective env ?rec"
        and P = "\<lambda>dd d objs. directive_from ?nm objs dd d", OF kd _ _ r2 ok1])
    fix dd st d st'
    assume "getDirective env ?rec dd st = Inr (d, st')" "state_ok env ?nm st"
    with kr show "directive_from ?nm (store st') dd d"
      by (rule getDirective_result(2))
  next
    fix dd d objs objs'
    assume "objs_kept objs objs'" "directive_from ?nm objs dd d"
    then show "directive_from ?nm objs' dd d" by (rule directive_from_kept)
  qed
  have s3: "step_ok env ?nm st2 st3"
    using keeps_root_type[OF kr] r3 by (rule keepsD)
  have s4: "step_ok env ?nm st3 st4"
    using keeps_root_type[OF kr] r4 by (rule keepsD)
  have s5: "step_ok env ?nm st4 st5"
    using keeps_root_type[OF kr] r5 by (rule keepsD)
  have s6: "step_ok env ?nm st5 st6" and sch: "schema_store schema = store st6"
      "directives schema = directives config" "types schema = types config"
    using GraphQLSchema_result[OF kr r6] by simp_all
  have s26: "step_ok env ?nm st2 st6"
    using s3 s4 s5 s6 by (blast intro: step_ok_trans)
  have s16: "step_ok env ?nm st1 st6"
    using s2 s26 by (rule step_ok_trans)
  have s06: "step_ok env ?nm ?st0 st6"
    using s1 s16 by (rule step_ok_trans)
  have ok6: "state_ok env ?nm st6"
    using s06 ok0 by (rule step_ok_state)
  have b6: "list_all2 (\<lambda>d r. result_ok ?nm (store st6) (name_value (def_name d)) r)
      (typeDefs ?p) built"
    using b1 step_ok_objs[OF s16] by (auto elim!: list_all2_mono intro: result_ok_kept)
  have d6: "list_all2 (\<lambda>dd d. directive_from ?nm (store st6) dd d) (directiveDefs ?p) ds"
    using d2 step_ok_objs[OF s26] by (auto elim!: list_all2_mono intro: directive_from_kept)
  from s06 obtain new where new: "errors st6 = ?errors2 @ new"
    "list_all resolution_diagnostic new"
    by (auto simp: step_ok_def errors_extend_iff)
  have objs: "list_all (object_ok env ?nm (store st6)) (store st6)"
    using ok6 by (simp add: state_ok_def)
  have dds: "directiveDefs ?p = directive_definitions defs"
    using scan_type_definitions[of defs] by simp
  show ?thesis
    using errs sch cfg names new objs b6 d6 dds
    by (intro exI[of _ new] exI[of _ ds] exI[of _ built]) simp
qed

section \<open>Diagnostics of the scan\<close>

lemma duplicate_name_errors_not_multiple_schema:
  "multiple_schema_diagnostics (duplicate_name_errors refs) = []"
  by (induction refs)
    (auto simp: multiple_schema_diagnostics_def duplicate_name_errors_def newGQLError_def)

lemma multiple_schema_diagnostics_append:
  "multiple_schema_diagnostics (xs @ ys) =
     multiple_schema_diagnostics xs @ multiple_schema_diagnostics ys"
  by (simp add: multiple_schema_diagnostics_def)

lemma multiple_schema_diagnostics_resolution:
  "list_all resolution_diagnostic new \<Longrightarrow> multiple_schema_diagnostics new = []"
  by (auto simp: multiple_schema_diagnostics_def list_all_iff filter_empty_conv
      dest: resolution_not_multiple_schema)

lemma multiple_schema_diagnostics_scanned:
  "multiple_schema_diagnostics (map (\<lambda>(x, y). multiple_schema_diagnostic x y) ps) =
     map (\<lambda>(x, y). multiple_schema_diagnostic x y) ps"
  by (induction ps)
    (auto simp: multiple_schema_diagnostics_def multiple_schema_diagnostic_def newGQLError_def)

text \<open>
  Claim C3, as amended.  The loop reports a schema definition against the one seen just
  before it, and keeps the new one: with the schema definitions \<open>s\<^sub>1, ..., s\<^sub>n\<close> of a
  document, in its order, the diagnostics of the scan are those of \<open>(s\<^sub>1, s\<^sub>2)\<close>,
  \<open>(s\<^sub>2, s\<^sub>3)\<close>, ..., \<open>(s\<^sub>n\<^sub>-\<^sub>1, s\<^sub>n)\<close>: one for each definition after the first,
  each with exactly two nodes; \<open>schemaDef\<close> ends as the last one.  When
  \<open>buildASTSchema\<close> returns, these are its diagnostics of that message, before any the
  schema reports itself.  For \<open>n = 2\<close> this is the single diagnostic of the claim.
\<close>

theorem multiple_schema_diagnostics_pairwise:
  "scanned_errors (scan_definitions defs) =
     map (\<lambda>(x, y). multiple_schema_diagnostic x y)
       (zip (schema_blocks defs) (tl (schema_blocks defs)))
   \<and> schemaDef (scan_definitions defs) =
       (if schema_blocks defs = [] then None else Some (last (schema_blocks defs)))
   \<and> (buildASTSchema depth env (Document defs) = Inr (schema, errs) \<longrightarrow>
        multiple_schema_diagnostics errs =
          map (\<lambda>(x, y). multiple_schema_diagnostic x y)
            (zip (schema_blocks defs) (tl (schema_blocks defs))) @
          multiple_schema_diagnostics (schema_errors schema))"
proof -
  have "multiple_schema_diagnostics errs =
          map (\<lambda>(x, y). multiple_schema_diagnostic x y)
            (zip (schema_blocks defs) (tl (schema_blocks defs))) @
          multiple_schema_diagnostics (schema_errors schema)"
    if "buildASTSchema depth env (Document defs) = Inr (schema, errs)"
  proof -
    from buildASTSchema_returns[OF that] obtain new where
      errs: "errs = scanned_errors (scan_definitions defs) @
            duplicate_name_errors (nodeMapWithAllReferences (scan_definitions defs)) @
            (if truthy (fst (operation_type_names (scan_definitions defs))) then []
             else [missing_query_diagnostic]) @
            new @ schema_errors schema" and
      new: "list_all resolution_diagnostic new"
      by blast
    have "multiple_schema_diagnostics [missing_query_diagnostic] = []"
      by (simp add: multiple_schema_diagnostics_def missing_query_diagnostic_def newGQLError_def)
    then show ?thesis
      using scan_schema_blocks[of defs] new
      by (simp add: errs multiple_schema_diagnostics_append
          multiple_schema_diagnostics_scanned duplicate_name_errors_not_multiple_schema
          multiple_schema_diagnostics_resolution)
  qed
  then show ?thesis
    using scan_schema_blocks[of defs] by simp
qed

theorem multiple_schema_diagnostics_pairwise_witness:
  "(case buildASTSchema 1 reference_env (Document two_schema_blocks) of
      Inl e \<Rightarrow> False
    | Inr (schema, errs) \<Rightarrow>
        multiple_schema_diagnostics errs =
          [multiple_schema_diagnostic (schema_block 1) (schema_block 2)])"
proof -
  have run: "(case buildASTSchema 1 reference_env (Document two_schema_blocks) of
      Inl e \<Rightarrow> False | Inr (schema, errs) \<Rightarrow> schema_errors schema = [])"
    by code_simp
  then obtain schema errs where
    r: "buildASTSchema 1 reference_env (Document two_schema_blocks) = Inr (schema, errs)"
    and e: "schema_errors schema = []"
    by (auto split: sum.splits)
  have "multiple_schema_diagnostics errs =
      [multiple_schema_diagnostic (schema_block 1) (schema_block 2)]"
    using multiple_schema_diagnostics_pairwise[of two_schema_blocks 1 reference_env schema errs]
      r e
    by (simp add: two_schema_blocks_def multiple_schema_diagnostics_def)
  with r show ?thesis by simp
qed

text \<open>
  With three schema definitions the build gives two diagnostics, and the second names
  the second and the third definition: not a single one naming the first two.
\<close>

theorem single_multiple_schema_diagnostic_counterexample:
  "scanned_errors (scan_definitions three_schema_blocks) =
     [multiple_schema_diagnostic (schema_block 1) (schema_block 2),
      multiple_schema_diagnostic (schema_block 2) (schema_block 3)]
   \<and> scanned_errors (scan_definitions three_schema_blocks) \<noteq>
     [multiple_schema_diagnostic (schema_block 1) (schema_block 2)]
   \<and> (case buildASTSchema 1 reference_env (Document three_schema_blocks) of
        Inl e \<Rightarrow> False
      | Inr (schema, errs) \<Rightarrow>
          multiple_schema_diagnostics errs =
            [multiple_schema_diagnostic (schema_block 1) (schema_block 2),
             multiple_schema_diagnostic (schema_block 2) (schema_block 3)])"
  by code_simp

section \<open>Names defined more than once\<close>

lemma find_hd_filter: "filter P xs \<noteq> [] \<Longrightarrow> find P xs = Some (hd (filter P xs))"
  by (induction xs) auto

lemma duplicate_name_message_filter_append:
  "filter (\<lambda>e. message e = duplicate_name_message n) (map (\<lambda>(x, y). multiple_schema_diagnostic x y) ps) = []"
  by (induction ps)
    (auto simp: multiple_schema_diagnostic_def newGQLError_def duplicate_name_message_def)

text \<open>
  A reference to a name that \<open>nodeMap\<close> holds a definition for, and that is neither the
  name of a built-in type nor of a member of \<open>Object.prototype\<close>, resolves to an
  object of the store made from that definition.
\<close>

lemma resolved_ok_defined:
  "resolved_ok nm objs n r \<Longrightarrow> map_of nm n = Some d \<Longrightarrow>
   n \<notin> set builtin_type_names \<union> set Object_prototype_keys \<Longrightarrow>
   \<exists>a. r = Instance a \<and> a < length objs \<and> made_from d (objs ! a)"
  by (cases r) (auto simp: resolved_ok_def)

lemma resolved_ok_builtin:
  "resolved_ok nm objs n r \<Longrightarrow> n \<in> set builtin_type_names \<Longrightarrow> r = Builtin n"
  by (cases r)
    (auto simp: resolved_ok_def constructible_def builtin_type_names_def
      Object_prototype_keys_def)

lemma list_all2_left_ex:
  "list_all2 P xs ys \<Longrightarrow> x \<in> set xs \<Longrightarrow> \<exists>y \<in> set ys. P x y"
  by (induction rule: list_all2_induct) auto

lemma list_all2_zip_NamedType:
  "list_all2 (\<lambda>i t. P (NamedType i) t) is ts \<Longrightarrow>
   list_all (\<lambda>p. P (fst p) (snd p)) (zip (map NamedType is) ts)"
  by (induction rule: list_all2_induct) auto

lemma input_references_ok:
  "list_all (input_ok nm objs ivs) m \<Longrightarrow>
   list_all (\<lambda>p. type_ref_ok nm objs (fst p) (snd p)) (input_references m)"
  by (auto simp: input_references_def list_all_iff input_ok_def split: option.splits)

lemma field_references_ok:
  assumes "list_all (field_ok env nm objs fs) fm"
  shows "list_all (\<lambda>p. type_ref_ok nm objs (fst p) (snd p)) (field_references fm)"
proof -
  have "list_all (\<lambda>p. type_ref_ok nm objs (fst p) (snd p))
      ((f_type (fd_node (snd kv)), fd_type (snd kv)) # input_references (fd_args (snd kv)))"
    if "kv \<in> set fm" for kv
  proof -
    from assms that have "field_ok env nm objs fs kv"
      by (simp add: list_all_iff)
    then show ?thesis
      using input_references_ok[of nm objs "f_arguments (fd_node (snd kv))" "fd_args (snd kv)"]
      by (simp add: field_ok_def)
  qed
  then show ?thesis
    by (auto simp: field_references_def list_all_iff)
qed

text \<open>
  Every type reference of an object that is as it should be is resolved as a reference
  to its innermost name may be.
\<close>

lemma references_ok:
  assumes "object_ok env nm objs obj"
  shows "list_all (\<lambda>p. type_ref_ok nm objs (fst p) (snd p)) (references obj)"
proof -
  from assms obtain d where node: "node_of obj = Some d"
    and mem: "members_ok env nm objs d obj"
    by (auto simp: object_ok_def made_from_def header_def split: option.splits)
  show ?thesis
  proof (cases obj)
    case (GraphQLObjectType n nd desc fs ifs)
    have 1: "list_all (\<lambda>p. type_ref_ok nm objs (fst p) (snd p))
        (case fs of Deferred \<Rightarrow> [] | Forced fm \<Rightarrow> field_references fm)"
      using mem GraphQLObjectType by (cases fs) (auto intro: field_references_ok)
    have 2: "list_all (\<lambda>p. type_ref_ok nm objs (fst p) (snd p))
        (case (ifs, nd) of
           (Forced (Some ts), Some nd) \<Rightarrow>
             zip (map NamedType (case def_interfaces nd of None \<Rightarrow> [] | Some is \<Rightarrow> is)) ts
         | other \<Rightarrow> [])"
    proof (cases ifs)
      case Deferred
      then show ?thesis by simp
    next
      case (Forced x)
      show ?thesis
      proof (cases x)
        case None
        with Forced show ?thesis by simp
      next
        case (Some ts)
        with Forced mem GraphQLObjectType obtain ifaces where
          "def_interfaces d = Some ifaces"
          "list_all2 (\<lambda>i t. type_ref_ok nm objs (NamedType i) t) ifaces ts"
          by (auto simp: interfaces_ok_def split: option.splits)
        with Forced Some node GraphQLObjectType show ?thesis
          by (simp add: list_all2_zip_NamedType)
      qed
    qed
    from 1 2 show ?thesis by (simp add: GraphQLObjectType)
  next
    case (GraphQLInterfaceType n nd desc fs)
    with mem show ?thesis by (cases fs) (auto intro: field_references_ok)
  next
    case (GraphQLUnionType n nd desc ts)
    with mem node show ?thesis by (simp add: list_all2_zip_NamedType)
  next
    case (GraphQLInputObjectType n nd desc fs)
    with mem show ?thesis by (cases fs) (auto intro: input_references_ok)
  next
    case (GraphQLEnumType n nd desc vs)
    then show ?thesis by simp
  next
    case (GraphQLScalarType n nd desc)
    then show ?thesis by simp
  qed
qed

text \<open>
  Claim C5, as amended.  For a name \<open>n\<close> that two or more type definitions of the
  document have:
  the diagnostics for names defined more than once hold exactly one with the message
  for \<open>n\<close>, and its nodes are the name nodes of all definitions of \<open>n\<close>, in the order of
  the document; \<open>nodeMap\<close> holds the first of them for \<open>n\<close>, and \<open>typeDefs\<close>
  holds it and no other definition of \<open>n\<close>.  When \<open>buildASTSchema\<close> returns,
  \<^item> that diagnostic is the only one of its message among the diagnostics (before any
    the schema reports itself);
  \<^item> every object of the schema named \<open>n\<close> is made from the first definition: its
    node, its class and its description are those of the first definition, and its
    fields, values, member types, interfaces or input fields are made from the nodes of
    the first definition;
  \<^item> when \<open>n\<close> is neither the name of a built-in type nor of a member of
    \<open>Object.prototype\<close> (names \<open>innerTypeMap\<close> answers for without building
    anything): the list \<open>types\<close> of the schema holds an object made from the first
    definition, and every type reference of every object of the schema whose innermost
    name is \<open>n\<close> (in a field, an argument, an input field, an interface or a member
    type) is resolved to an object made from the first definition;
  \<^item> when \<open>n\<close> is the name of a built-in type, no object of the schema is named
    \<open>n\<close>, and every such type reference is resolved to the built-in type: no
    definition of the document is used.
\<close>

theorem duplicate_type_names_reported_once:
  assumes "2 \<le> length (occurrences n defs)"
  shows "filter (\<lambda>e. message e = duplicate_name_message n)
           (duplicate_name_errors (nodeMapWithAllReferences (scan_definitions defs))) =
         [duplicate_name_diagnostic n (occurrences n defs)]
     \<and> map_of (nodeMap (scan_definitions defs)) n = Some (hd (occurrences n defs))
     \<and> filter (\<lambda>d. name_value (def_name d) = n) (typeDefs (scan_definitions defs)) =
         [hd (occurrences n defs)]
     \<and> (buildASTSchema depth env (Document defs) = Inr (schema, errs) \<longrightarrow>
          filter (\<lambda>e. message e = duplicate_name_message n) errs =
            [duplicate_name_diagnostic n (occurrences n defs)] @
            filter (\<lambda>e. message e = duplicate_name_message n) (schema_errors schema)
          \<and> (\<forall>obj \<in> set (schema_store schema). type_name obj = n \<longrightarrow>
                made_from (hd (occurrences n defs)) obj \<and>
                members_ok env (nodeMap (scan_definitions defs)) (schema_store schema)
                  (hd (occurrences n defs)) obj)
          \<and> (n \<notin> set builtin_type_names \<union> set Object_prototype_keys \<longrightarrow>
               (\<exists>a. Instance a \<in> set (types schema) \<and> a < length (schema_store schema) \<and>
                    made_from (hd (occurrences n defs)) (schema_store schema ! a))
               \<and> (\<forall>obj \<in> set (schema_store schema). \<forall>ref \<in> set (references obj).
                    name_value (nt_name (getNamedTypeNode (fst ref))) = n \<longrightarrow>
                    (\<exists>a. getNamedType (snd ref) = Instance a \<and>
                         a < length (schema_store schema) \<and>
                         made_from (hd (occurrences n defs)) (schema_store schema ! a))))
          \<and> (n \<in> set builtin_type_names \<longrightarrow>
               (\<forall>obj \<in> set (schema_store schema). type_name obj \<noteq> n)
               \<and> (\<forall>obj \<in> set (schema_store schema). \<forall>ref \<in> set (references obj).
                    name_value (nt_name (getNamedTypeNode (fst ref))) = n \<longrightarrow>
                    getNamedType (snd ref) = Builtin n)))"
proof -
  let ?p = "scan_definitions defs"
  let ?nm = "nodeMap ?p"
  let ?occ = "occurrences n defs"
  have ne: "?occ \<noteq> []" using assms by auto
  have one: "take 1 ?occ = [hd ?occ]"
    using ne by (cases ?occ) simp_all
  have dups: "filter (\<lambda>e. message e = duplicate_name_message n)
           (duplicate_name_errors (nodeMapWithAllReferences ?p)) =
         [duplicate_name_diagnostic n ?occ]"
    using scan_type_definitions[of defs n] assms ne
    by (simp add: duplicate_name_errors_filter)
  have first: "map_of ?nm n = Some (hd ?occ)"
    using scan_type_definitions[of defs n] ne
    by (simp add: occurrences_def find_hd_filter)
  have tds: "filter (\<lambda>d. name_value (def_name d) = n) (typeDefs ?p) = [hd ?occ]"
    using scan_type_definitions[of defs n] one by simp
  have build: "filter (\<lambda>e. message e = duplicate_name_message n) errs =
            [duplicate_name_diagnostic n ?occ] @
            filter (\<lambda>e. message e = duplicate_name_message n) (schema_errors schema)
          \<and> (\<forall>obj \<in> set (schema_store schema). type_name obj = n \<longrightarrow>
                made_from (hd ?occ) obj \<and>
                members_ok env ?nm (schema_store schema) (hd ?occ) obj)
          \<and> (n \<notin> set builtin_type_names \<union> set Object_prototype_keys \<longrightarrow>
               (\<exists>a. Instance a \<in> set (types schema) \<and> a < length (schema_store schema) \<and>
                    made_from (hd ?occ) (schema_store schema ! a))
               \<and> (\<forall>obj \<in> set (schema_store schema). \<forall>ref \<in> set (references obj).
                    name_value (nt_name (getNamedTypeNode (fst ref))) = n \<longrightarrow>
                    (\<exists>a. getNamedType (snd ref) = Instance a \<and>
                         a < length (schema_store schema) \<and>
                         made_from (hd ?occ) (schema_store schema ! a))))
          \<and> (n \<in> set builtin_type_names \<longrightarrow>
               (\<forall>obj \<in> set (schema_store schema). type_name obj \<noteq> n)
               \<and> (\<forall>obj \<in> set (schema_store schema). \<forall>ref \<in> set (references obj).
                    name_value (nt_name (getNamedTypeNode (fst ref))) = n \<longrightarrow>
                    getNamedType (snd ref) = Builtin n))"
    if r: "buildASTSchema depth env (Document defs) = Inr (schema, errs)"
  proof -
    from buildASTSchema_returns[OF r] obtain new built where
      errs: "errs = scanned_errors ?p @
            duplicate_name_errors (nodeMapWithAllReferences ?p) @
            (if truthy (fst (operation_type_names ?p)) then []
             else [missing_query_diagnostic]) @
            new @ schema_errors schema" and
      new: "list_all resolution_diagnostic new" and
      objs: "list_all (object_ok env ?nm (schema_store schema)) (schema_store schema)" and
      types: "types schema =
         concat (map (\<lambda>t. case t of None \<Rightarrow> [] | Some r \<Rightarrow> [r]) built) @
         map Builtin [''String'', ''Int'', ''Float'', ''Boolean'', ''ID'']" and
      built: "list_all2 (\<lambda>d r. result_ok ?nm (schema_store schema) (name_value (def_name d)) r)
         (typeDefs ?p) built"
      by blast
    have n1: "filter (\<lambda>e. message e = duplicate_name_message n) (scanned_errors ?p) = []"
      using scan_schema_blocks[of defs] by (simp add: duplicate_name_message_filter_append)
    have n2: "filter (\<lambda>e. message e = duplicate_name_message n) [missing_query_diagnostic] = []"
      by (simp add: missing_query_diagnostic_def newGQLError_def duplicate_name_message_def)
    have n3: "filter (\<lambda>e. message e = duplicate_name_message n) new = []"
      using new by (auto simp: list_all_iff filter_empty_conv dest: resolution_not_duplicate)
    have e: "filter (\<lambda>e. message e = duplicate_name_message n) errs =
            [duplicate_name_diagnostic n ?occ] @
            filter (\<lambda>e. message e = duplicate_name_message n) (schema_errors schema)"
      using n1 n2 n3 dups by (simp add: errs)
    have made: "made_from (hd ?occ) obj \<and> members_ok env ?nm (schema_store schema) (hd ?occ) obj"
      if "obj \<in> set (schema_store schema)" "type_name obj = n" for obj
    proof -
      have "object_ok env ?nm (schema_store schema) obj"
        using objs that(1) by (simp add: list_all_iff)
      then show ?thesis
        using that(2) first by (simp add: object_ok_def)
    qed
    have used: "\<exists>a. Instance a \<in> set (types schema) \<and> a < length (schema_store schema) \<and>
          made_from (hd ?occ) (schema_store schema ! a)"
      if own: "n \<notin> set builtin_type_names \<union> set Object_prototype_keys"
    proof -
      have "hd ?occ \<in> set (filter (\<lambda>d. name_value (def_name d) = n) (typeDefs ?p))"
        by (simp only: tds) simp
      then have mem: "hd ?occ \<in> set (typeDefs ?p)" and nm: "name_value (def_name (hd ?occ)) = n"
        by simp_all
      from list_all2_left_ex[OF built mem] obtain x where
        x: "x \<in> set built" "result_ok ?nm (schema_store schema) n x"
        by (auto simp: nm)
      from x(2) first obtain y where y: "x = Some y" "resolved_ok ?nm (schema_store schema) n y"
        by (cases x) (simp_all add: result_ok_def)
      from resolved_ok_defined[OF y(2) first own] obtain a where
        a: "y = Instance a" "a < length (schema_store schema)"
          "made_from (hd ?occ) (schema_store schema ! a)"
        by blast
      have "Instance a \<in> set (types schema)"
        using x(1) y(1) a(1) by (force simp: types)
      with a show ?thesis by blast
    qed
    have refs: "\<exists>a. getNamedType (snd ref) = Instance a \<and> a < length (schema_store schema) \<and>
          made_from (hd ?occ) (schema_store schema ! a)"
      if own: "n \<notin> set builtin_type_names \<union> set Object_prototype_keys"
        and obj: "obj \<in> set (schema_store schema)" and ref: "ref \<in> set (references obj)"
        and nm: "name_value (nt_name (getNamedTypeNode (fst ref))) = n" for obj ref
    proof -
      have "object_ok env ?nm (schema_store schema) obj"
        using objs obj by (simp add: list_all_iff)
      then have "type_ref_ok ?nm (schema_store schema) (fst ref) (snd ref)"
        using references_ok[of env ?nm "schema_store schema" obj] ref
        by (simp add: list_all_iff)
      then have "resolved_ok ?nm (schema_store schema) n (getNamedType (snd ref))"
        by (simp add: type_ref_ok_def nm)
      then show ?thesis
        using first own by (rule resolved_ok_defined)
    qed
    have resolved: "resolved_ok ?nm (schema_store schema) n (getNamedType (snd ref))"
      if obj: "obj \<in> set (schema_store schema)" and ref: "ref \<in> set (references obj)"
        and nm: "name_value (nt_name (getNamedTypeNode (fst ref))) = n" for obj ref
    proof -
      have "object_ok env ?nm (schema_store schema) obj"
        using objs obj by (simp add: list_all_iff)
      then have "type_ref_ok ?nm (schema_store schema) (fst ref) (snd ref)"
        using references_ok[of env ?nm "schema_store schema" obj] ref
        by (simp add: list_all_iff)
      then show ?thesis
        by (simp add: type_ref_ok_def nm)
    qed
    have none: "type_name obj \<noteq> n"
      if "n \<in> set builtin_type_names" "obj \<in> set (schema_store schema)" for obj
    proof -
      have "object_ok env ?nm (schema_store schema) obj"
        using objs that(2) by (simp add: list_all_iff)
      then have "constructible (type_name obj)"
        by (simp add: object_ok_def)
      with that(1) show ?thesis
        by (auto simp: constructible_def)
    qed
    have builtin: "getNamedType (snd ref) = Builtin n"
      if "n \<in> set builtin_type_names" "obj \<in> set (schema_store schema)"
        "ref \<in> set (references obj)" "name_value (nt_name (getNamedTypeNode (fst ref))) = n"
      for obj ref
      using resolved[OF that(2,3,4)] that(1) by (rule resolved_ok_builtin)
    from e made used refs none builtin show ?thesis by blast
  qed
  from dups first tds build show ?thesis by blast
qed

text \<open>
  Claim C5 as stated fails for the name of a built-in type.  For \<open>scalar String\<close>,
  \<open>scalar String\<close> and \<open>type Query { s: String }\<close> the build gives the one diagnostic
  for \<open>String\<close>, but makes no object from the first definition (the only object of
  the schema is \<open>Query\<close>): \<open>typeDefNamed\<close> answers with the built-in type, which is
  what the field \<open>s\<close> and the list \<open>types\<close> hold.
\<close>

theorem builtin_name_definitions_unused_counterexample:
  "2 \<le> length (occurrences ''String'' builtin_name_document)
   \<and> (case buildASTSchema 1 reference_env (Document builtin_name_document) of
        Inl e \<Rightarrow> False
      | Inr (schema, errs) \<Rightarrow>
          map nodes (filter (\<lambda>e. message e = duplicate_name_message ''String'') errs) =
            [Some [NameNode (name_at ''String'' 1), NameNode (name_at ''String'' 2)]] \<and>
          map type_name (schema_store schema) = [''Query''] \<and>
          list_all (\<lambda>obj. \<not> made_from (hd (occurrences ''String'' builtin_name_document)) obj)
            (schema_store schema) \<and>
          map references (schema_store schema) =
            [[(NamedType (type_ref ''String''), Named (Builtin ''String''))]] \<and>
          take 2 (types schema) = [Builtin ''String'', Instance 0])"
  by code_simp

theorem duplicate_type_names_reported_once_witness:
  "2 \<le> length (occurrences ''T'' duplicate_names_document)
   \<and> map nodes (filter (\<lambda>e. message e = duplicate_name_message ''T'')
        (duplicate_name_errors
           (nodeMapWithAllReferences (scan_definitions duplicate_names_document)))) =
       [Some [NameNode (name_at ''T'' 1), NameNode (name_at ''T'' 2),
              NameNode (name_at ''T'' 4)]]
   \<and> (case buildASTSchema 1 reference_env (Document duplicate_names_document) of
        Inl e \<Rightarrow> False
      | Inr (schema, errs) \<Rightarrow>
          length (filter (\<lambda>e. message e = duplicate_name_message ''T'') errs) = 1 \<and>
          map type_name (schema_store schema) = [''T'', ''Query''] \<and>
          map references (schema_store schema) =
            [[(NamedType (type_ref ''Int''), Named (Builtin ''Int''))],
             [(NamedType (type_ref ''T''), Named (Instance 0))]] \<and>
          made_from (hd (occurrences ''T'' duplicate_names_document)) (schema_store schema ! 0) \<and>
          (\<exists>a. Instance a \<in> set (types schema) \<and> a < length (schema_store schema) \<and>
               made_from (hd (occurrences ''T'' duplicate_names_document))
                 (schema_store schema ! a)))"
proof -
  have two: "2 \<le> length (occurrences ''T'' duplicate_names_document)"
    by (simp add: occurrences_def duplicate_names_document_def name_at_def)
  have occ: "map (\<lambda>d. NameNode (def_name d)) (occurrences ''T'' duplicate_names_document) =
      [NameNode (name_at ''T'' 1), NameNode (name_at ''T'' 2), NameNode (name_at ''T'' 4)]"
    by (simp add: occurrences_def duplicate_names_document_def name_at_def)
  have own: "''T'' \<notin> set builtin_type_names \<union> set Object_prototype_keys"
    by (simp add: builtin_type_names_def Object_prototype_keys_def)
  have run: "(case buildASTSchema 1 reference_env (Document duplicate_names_document) of
      Inl e \<Rightarrow> False
    | Inr (schema, errs) \<Rightarrow>
        schema_errors schema = [] \<and>
        map type_name (schema_store schema) = [''T'', ''Query''] \<and>
        map references (schema_store schema) =
          [[(NamedType (type_ref ''Int''), Named (Builtin ''Int''))],
           [(NamedType (type_ref ''T''), Named (Instance 0))]])"
    by code_simp
  then obtain schema errs where
    r: "buildASTSchema 1 reference_env (Document duplicate_names_document) = Inr (schema, errs)"
    and e: "schema_errors schema = []"
    and names: "map type_name (schema_store schema) = [''T'', ''Query'']"
    and refs: "map references (schema_store schema) =
          [[(NamedType (type_ref ''Int''), Named (Builtin ''Int''))],
           [(NamedType (type_ref ''T''), Named (Instance 0))]]"
    by (auto split: sum.splits)
  note inst = duplicate_type_names_reported_once[OF two, of 1 reference_env schema errs]
  have "map nodes (filter (\<lambda>e. message e = duplicate_name_message ''T'')
        (duplicate_name_errors
           (nodeMapWithAllReferences (scan_definitions duplicate_names_document)))) =
       [Some [NameNode (name_at ''T'' 1), NameNode (name_at ''T'' 2),
              NameNode (name_at ''T'' 4)]]"
    using inst occ
    by (simp add: duplicate_name_diagnostic_def newGQLError_def)
  moreover have "length (filter (\<lambda>e. message e = duplicate_name_message ''T'') errs) = 1"
    using inst r e by simp
  moreover have "\<exists>a. Instance a \<in> set (types schema) \<and> a < length (schema_store schema) \<and>
      made_from (hd (occurrences ''T'' duplicate_names_document)) (schema_store schema ! a)"
    using inst r own by blast
  moreover have "made_from (hd (occurrences ''T'' duplicate_names_document))
      (schema_store schema ! 0)"
  proof -
    from names have "schema_store schema \<noteq> []" "type_name (schema_store schema ! 0) = ''T''"
      by (auto simp: map_eq_Cons_conv)
    then have "schema_store schema ! 0 \<in> set (schema_store schema)"
      by simp
    with inst r \<open>type_name (schema_store schema ! 0) = ''T''\<close> show ?thesis by blast
  qed
  ultimately show ?thesis
    using two r names refs by simp
qed

section \<open>Directives\<close>

lemma add_specified_directives_eq:
  "add_specified_directives ds =
     ds @ filter (\<lambda>b. d_name b \<notin> d_name ` set ds)
       [GraphQLSkipDirective, GraphQLIncludeDirective, GraphQLDeprecatedDirective]"
  by (auto simp: add_specified_directives_def Let_def GraphQLSkipDirective_def
      GraphQLIncludeDirective_def GraphQLDeprecatedDirective_def image_iff)

lemma directive_from_constructed:
  "directive_from nm objs dd d \<Longrightarrow>
   d \<notin> {GraphQLSkipDirective, GraphQLIncludeDirective, GraphQLDeprecatedDirective}"
  by (auto simp: directive_from_def GraphQLSkipDirective_def GraphQLIncludeDirective_def
      GraphQLDeprecatedDirective_def)

lemma directives_from_names:
  "list_all2 (directive_from nm objs) dds ds \<Longrightarrow>
   map d_name ds = map (\<lambda>dd. name_value (dd_name dd)) dds"
  by (induction rule: list_all2_induct) (simp_all add: directive_from_def)

lemma list_all2_right_ex:
  "list_all2 P xs ys \<Longrightarrow> y \<in> set ys \<Longrightarrow> \<exists>x \<in> set xs. P x y"
  by (induction rule: list_all2_induct) auto

lemma getDeprecationReason_built_in:
  "getDeprecationReason env dirs = deprecation_reason_with env GraphQLDeprecatedDirective dirs"
proof -
  have "d_name GraphQLDeprecatedDirective = ''deprecated''"
    by (simp add: GraphQLDeprecatedDirective_def)
  then show ?thesis
    by (cases dirs) (simp_all add: getDeprecationReason_def deprecation_reason_with_def)
qed

lemma field_reasons_ok:
  assumes "object_ok env nm objs obj"
  shows "list_all (\<lambda>p. getDeprecationReason env (fst p) = Inr (snd p)) (field_reasons obj)"
proof -
  from assms obtain d where mem: "members_ok env nm objs d obj"
    by (auto simp: object_ok_def split: option.splits)
  then show ?thesis
    by (cases obj rule: field_reasons.cases)
      (auto simp: list_all_iff field_ok_def enum_value_ok_def)
qed

text \<open>
  Claim C4, as amended.  \<open>getDeprecationReason\<close> takes no directive of the document: it
  reads \<open>reason\<close> from the values of the arguments of the built-in
  \<open>GraphQLDeprecatedDirective\<close>, whatever the document defines.  When \<open>buildASTSchema\<close>
  returns,
  \<^item> the directives of the schema are the objects \<open>getDirective\<close> constructed for the
    directive definitions of the document, one for each, in their order (each with the
    name, description and locations of its definition, and arguments made from the
    arguments of its definition), followed by those of the built-in \<open>skip\<close>,
    \<open>include\<close> and \<open>deprecated\<close> whose name no directive definition has;
  \<^item> so when the document defines \<open>deprecated\<close>, the built-in
    \<open>GraphQLDeprecatedDirective\<close> is not among the directives of the schema, and every
    directive of the schema named \<open>deprecated\<close> is the object constructed for a
    definition of that name;
  \<^item> every deprecation reason held by a field or an enum value of the schema is the one
    read from the directives of its node with the argument set of the built-in
    \<open>GraphQLDeprecatedDirective\<close>.
\<close>

theorem specified_directives_shadowed:
  "getDeprecationReason env dirs =
     deprecation_reason_with env GraphQLDeprecatedDirective dirs
   \<and> (buildASTSchema depth env (Document defs) = Inr (schema, errs) \<longrightarrow>
        (\<exists>explicit.
           list_all2 (directive_from (nodeMap (scan_definitions defs)) (schema_store schema))
             (directive_definitions defs) explicit \<and>
           directives schema =
             explicit @
             filter (\<lambda>b. d_name b \<notin>
                          (\<lambda>dd. name_value (dd_name dd)) ` set (directive_definitions defs))
               [GraphQLSkipDirective, GraphQLIncludeDirective, GraphQLDeprecatedDirective])
        \<and> (''deprecated'' \<in> (\<lambda>dd. name_value (dd_name dd)) ` set (directive_definitions defs)
           \<longrightarrow> GraphQLDeprecatedDirective \<notin> set (directives schema) \<and>
               (\<forall>d \<in> set (directives schema). d_name d = ''deprecated'' \<longrightarrow>
                  (\<exists>dd \<in> set (directive_definitions defs).
                     name_value (dd_name dd) = ''deprecated'' \<and>
                     d_object d = ConstructedDirective dd)))
        \<and> list_all (\<lambda>obj. list_all (\<lambda>p.
              deprecation_reason_with env GraphQLDeprecatedDirective (fst p) = Inr (snd p))
            (field_reasons obj)) (schema_store schema))"
proof -
  let ?nm = "nodeMap (scan_definitions defs)"
  let ?names = "(\<lambda>dd. name_value (dd_name dd)) ` set (directive_definitions defs)"
  have build: "(\<exists>explicit.
           list_all2 (directive_from ?nm (schema_store schema))
             (directive_definitions defs) explicit \<and>
           directives schema =
             explicit @ filter (\<lambda>b. d_name b \<notin> ?names)
               [GraphQLSkipDirective, GraphQLIncludeDirective, GraphQLDeprecatedDirective])
        \<and> (''deprecated'' \<in> ?names
           \<longrightarrow> GraphQLDeprecatedDirective \<notin> set (directives schema) \<and>
               (\<forall>d \<in> set (directives schema). d_name d = ''deprecated'' \<longrightarrow>
                  (\<exists>dd \<in> set (directive_definitions defs).
                     name_value (dd_name dd) = ''deprecated'' \<and>
                     d_object d = ConstructedDirective dd)))
        \<and> list_all (\<lambda>obj. list_all (\<lambda>p.
              deprecation_reason_with env GraphQLDeprecatedDirective (fst p) = Inr (snd p))
            (field_reasons obj)) (schema_store schema)"
    if r: "buildASTSchema depth env (Document defs) = Inr (schema, errs)"
  proof -
    from buildASTSchema_returns[OF r] obtain ds where
      objs: "list_all (object_ok env ?nm (schema_store schema)) (schema_store schema)" and
      dirs: "directives schema = add_specified_directives ds" and
      from_defs: "list_all2 (directive_from ?nm (schema_store schema))
         (directive_definitions defs) ds"
      by blast
    have "map d_name ds = map (\<lambda>dd. name_value (dd_name dd)) (directive_definitions defs)"
      using from_defs by (rule directives_from_names)
    then have "set (map d_name ds) =
        set (map (\<lambda>dd. name_value (dd_name dd)) (directive_definitions defs))"
      by simp
    then have names: "d_name ` set ds = ?names"
      by simp
    have eq: "directives schema =
        ds @ filter (\<lambda>b. d_name b \<notin> ?names)
          [GraphQLSkipDirective, GraphQLIncludeDirective, GraphQLDeprecatedDirective]"
      by (simp only: dirs add_specified_directives_eq names)
    have constructed: "\<exists>dd \<in> set (directive_definitions defs).
        directive_from ?nm (schema_store schema) dd d" if "d \<in> set ds" for d
      using from_defs that by (rule list_all2_right_ex)
    have shadow: "GraphQLDeprecatedDirective \<notin> set (directives schema) \<and>
        (\<forall>d \<in> set (directives schema). d_name d = ''deprecated'' \<longrightarrow>
           (\<exists>dd \<in> set (directive_definitions defs).
              name_value (dd_name dd) = ''deprecated'' \<and>
              d_object d = ConstructedDirective dd))"
      if dep: "''deprecated'' \<in> ?names"
    proof -
      define added where "added = filter (\<lambda>b. d_name b \<notin> ?names)
          [GraphQLSkipDirective, GraphQLIncludeDirective, GraphQLDeprecatedDirective]"
      have rest: "set added \<subseteq> {GraphQLSkipDirective, GraphQLIncludeDirective}"
        using dep by (auto simp: added_def GraphQLDeprecatedDirective_def)
      have all: "set (directives schema) = set ds \<union> set added"
        by (simp add: eq added_def)
      have 1: "GraphQLDeprecatedDirective \<notin> set ds"
        using constructed directive_from_constructed by blast
      have 2: "GraphQLDeprecatedDirective \<notin> {GraphQLSkipDirective, GraphQLIncludeDirective}"
        by (simp add: GraphQLDeprecatedDirective_def GraphQLSkipDirective_def
            GraphQLIncludeDirective_def)
      have 3: "\<exists>dd \<in> set (directive_definitions defs).
              name_value (dd_name dd) = ''deprecated'' \<and> d_object d = ConstructedDirective dd"
        if d: "d \<in> set (directives schema)" "d_name d = ''deprecated''" for d
      proof -
        have "d \<notin> {GraphQLSkipDirective, GraphQLIncludeDirective}"
          using d(2) by (auto simp: GraphQLSkipDirective_def GraphQLIncludeDirective_def)
        with d(1) rest have "d \<in> set ds"
          unfolding all by blast
        from constructed[OF this] d(2) show ?thesis
          by (auto simp: directive_from_def)
      qed
      have "GraphQLDeprecatedDirective \<notin> set (directives schema)"
        unfolding all using 1 2 rest by blast
      with 3 show ?thesis by blast
    qed
    have reasons: "list_all (\<lambda>obj. list_all (\<lambda>p.
              deprecation_reason_with env GraphQLDeprecatedDirective (fst p) = Inr (snd p))
            (field_reasons obj)) (schema_store schema)"
    proof -
      have "list_all (\<lambda>p. getDeprecationReason env (fst p) = Inr (snd p)) (field_reasons obj)"
        if "obj \<in> set (schema_store schema)" for obj
        using objs that by (intro field_reasons_ok[of env ?nm "schema_store schema"])
          (simp add: list_all_iff)
      then show ?thesis
        by (simp add: list_all_iff getDeprecationReason_built_in[symmetric])
    qed
    from from_defs eq shadow reasons show ?thesis by blast
  qed
  then show ?thesis
    using getDeprecationReason_built_in[of env dirs] by blast
qed

theorem specified_directives_shadowed_witness:
  "(case buildASTSchema 1 reference_env deprecated_override_document of
      Inl e \<Rightarrow> False
    | Inr (schema, errs) \<Rightarrow>
        map d_name (directives schema) = [''deprecated'', ''skip'', ''include''] \<and>
        map (\<lambda>d. map fst (d_args d)) (directives schema) = [[''why''], [''if''], [''if'']] \<and>
        GraphQLDeprecatedDirective \<notin> set (directives schema) \<and>
        (\<forall>d \<in> set (directives schema). d_name d = ''deprecated'' \<longrightarrow>
           d_object d \<noteq> SpecifiedDirective ''deprecated'') \<and>
        map field_reasons (schema_store schema) =
          [[(f_directives deprecated_field, JSString ''x'')]] \<and>
        list_all (\<lambda>obj. list_all (\<lambda>p.
            deprecation_reason_with reference_env GraphQLDeprecatedDirective (fst p) =
              Inr (snd p))
          (field_reasons obj)) (schema_store schema))"
proof -
  obtain defs where doc: "deprecated_override_document = Document defs"
    and dd: "map (\<lambda>dd. name_value (dd_name dd)) (directive_definitions defs) = [''deprecated'']"
    by (simp add: deprecated_override_document_def name_of_def)
  have run: "(case buildASTSchema 1 reference_env deprecated_override_document of
      Inl e \<Rightarrow> False
    | Inr (schema, errs) \<Rightarrow>
        map d_name (directives schema) = [''deprecated'', ''skip'', ''include''] \<and>
        map (\<lambda>d. map fst (d_args d)) (directives schema) = [[''why''], [''if''], [''if'']] \<and>
        map field_reasons (schema_store schema) =
          [[(f_directives deprecated_field, JSString ''x'')]])"
    by code_simp
  then obtain schema errs where
    r: "buildASTSchema 1 reference_env (Document defs) = Inr (schema, errs)" and
    names: "map d_name (directives schema) = [''deprecated'', ''skip'', ''include'']" and
    args: "map (\<lambda>d. map fst (d_args d)) (directives schema) = [[''why''], [''if''], [''if'']]" and
    reasons: "map field_reasons (schema_store schema) =
          [[(f_directives deprecated_field, JSString ''x'')]]"
    by (auto simp: doc split: sum.splits)
  have "set (map (\<lambda>dd. name_value (dd_name dd)) (directive_definitions defs)) =
      {''deprecated''}"
    by (simp only: dd) simp
  then have mem: "''deprecated'' \<in>
      (\<lambda>dd. name_value (dd_name dd)) ` set (directive_definitions defs)"
    by simp
  note inst = specified_directives_shadowed[of reference_env None 1 defs schema errs]
  from inst r have all: "list_all (\<lambda>obj. list_all (\<lambda>p.
            deprecation_reason_with reference_env GraphQLDeprecatedDirective (fst p) =
              Inr (snd p))
          (field_reasons obj)) (schema_store schema)"
    by blast
  from inst r mem have shadow: "GraphQLDeprecatedDirective \<notin> set (directives schema)"
    "\<forall>d \<in> set (directives schema). d_name d = ''deprecated'' \<longrightarrow>
       (\<exists>dd \<in> set (directive_definitions defs).
          name_value (dd_name dd) = ''deprecated'' \<and> d_object d = ConstructedDirective dd)"
    by blast+
  from shadow(2) have "\<forall>d \<in> set (directives schema). d_name d = ''deprecated'' \<longrightarrow>
      d_object d \<noteq> SpecifiedDirective ''deprecated''"
    by fastforce
  with r names args reasons all shadow(1) show ?thesis
    by (simp add: doc)
qed

text \<open>
  Claim C4 as stated fails.  A document defines \<open>deprecated\<close> with the one argument
  \<open>why\<close>, and a field carries \<open>@deprecated(reason: "x")\<close>.  The schema's
  \<open>deprecated\<close> is the explicit directive, the field's deprecation reason is \<open>x\<close>,
  and reading the reason with the explicit directive's argument set would give
  \<open>undefined\<close>.
\<close>

theorem deprecated_override_counterexample:
  "(case buildASTSchema 1 reference_env deprecated_override_document of
      Inl e \<Rightarrow> False
    | Inr (schema, errs) \<Rightarrow>
        (case (directives schema, schema_store schema) of
           (deprecated # rest, [GraphQLObjectType n d desc (Forced [(k, fd)]) ifs]) \<Rightarrow>
             d_name deprecated = ''deprecated'' \<and>
             map fst (d_args deprecated) = [''why''] \<and>
             map d_name rest = [''skip'', ''include''] \<and>
             fd_deprecationReason fd = JSString ''x'' \<and>
             deprecation_reason_with reference_env deprecated (f_directives (fd_node fd)) =
               Inr JSUndefined
         | other \<Rightarrow> False))"
  by code_simp

section \<open>Inputs on which the build does not return a schema\<close>

text \<open>
  Claim C1 fails on \<open>schema { query: Missing }\<close> with no definition of \<open>Missing\<close>:
  \<open>nodeMap[queryTypeName]\<close> is undefined, \<open>getObjectType\<close> reads its \<open>name\<close>, and the
  call throws a \<open>TypeError\<close> instead of returning a schema and diagnostics, whatever
  the parameters.
\<close>

theorem missing_root_throws:
  "buildASTSchema depth env missing_root_document =
     Inl (TypeError ''Cannot read property name of undefined'')"
  by (simp add: buildASTSchema_def missing_root_document_def scan_definitions_def
      empty_partition_def operation_type_names_def set_operation_type_def truthy_def
      root_type_def getObjectType_def type_ref_def name_of_def duplicate_name_errors_def)

text \<open>
  Two union definitions whose first members name each other (or one that names itself),
  neither yet in \<open>innerTypeMap\<close>: \<open>typeDefNamed\<close> stores a type only after
  \<open>makeUnionDef\<close> has resolved the members, so each activation calls the next in the
  same state, and no depth of the call stack is enough.
\<close>

lemma cyclic_unions_diverge:
  assumes "map_of nm a = Some (UnionTypeDefinition na (tb # ra) la)"
    and "name_value (nt_name tb) = b"
    and "map_of nm b = Some (UnionTypeDefinition nb (ta # rb) lb)"
    and "name_value (nt_name ta) = a"
    and "innerTypeMap_get (innerTypeMap st) a = None"
    and "innerTypeMap_get (innerTypeMap st) b = None"
  shows "typeDefNamed depth env nm a nodeA st =
           Inl (RangeError ''Maximum call stack size exceeded'')
       \<and> typeDefNamed depth env nm b nodeB st =
           Inl (RangeError ''Maximum call stack size exceeded'')"
proof (induction depth arbitrary: nodeA nodeB)
  case 0
  show ?case by simp
next
  case (Suc depth)
  show ?case
    using assms Suc.IH
    by (simp add: typeDefNamed_body_def makeUnionDef_def produceObjectType_def
        produceType_def)
qed

text \<open>
  Claim C2 fails on \<open>union A = B\<close>, \<open>union B = A\<close>: for every room of the call stack
  and all parameters, \<open>buildASTSchema\<close> ends in the \<open>RangeError\<close> of unbounded
  recursion and returns no schema.
\<close>

theorem cyclic_unions_never_return:
  "buildASTSchema depth env cyclic_unions_document =
     Inl (RangeError ''Maximum call stack size exceeded'')"
proof -
  let ?dA = "UnionTypeDefinition (name_of ''A'') [type_ref ''B''] None"
  let ?dB = "UnionTypeDefinition (name_of ''B'') [type_ref ''A''] None"
  have "typeDefNamed depth env [(''A'', ?dA), (''B'', ?dB)] ''A'' nodeA
          \<lparr>errors = errs, innerTypeMap = initial_innerTypeMap, store = []\<rparr> =
        Inl (RangeError ''Maximum call stack size exceeded'')" for nodeA errs
    using cyclic_unions_diverge[where nm = "[(''A'', ?dA), (''B'', ?dB)]" and a = "''A''"
        and b = "''B''" and na = "name_of ''A''" and nb = "name_of ''B''"
        and tb = "type_ref ''B''" and ta = "type_ref ''A''" and ra = "[]" and rb = "[]"
        and la = None and lb = None and depth = depth and env = env and nodeA = nodeA
        and st = "\<lparr>errors = errs, innerTypeMap = initial_innerTypeMap, store = []\<rparr>"]
    by (simp add: type_ref_def name_of_def innerTypeMap_get_def initial_innerTypeMap_def
        builtin_type_names_def Object_prototype_keys_def)
  then show ?thesis
    by (simp add: buildASTSchema_def cyclic_unions_document_def scan_definitions_def
      empty_partition_def operation_type_names_def truthy_def Let_def
      name_of_def[of "''A''"] name_of_def[of "''B''"])
qed

text \<open>
  A reference to a name that is neither an own property of \<open>innerTypeMap\<close> nor a member
  of \<open>Object.prototype\<close>, and that \<open>nodeMap\<close> does not hold: \<open>typeDefNamed\<close> pushes
  the <<not found>> diagnostic for the named type node and returns null, and
  \<open>produceType\<close> wraps the placeholder it was given (a placeholder that is a type of
  graphql-js, when the reference has a wrapper).
\<close>

lemma typeDefNamed_not_found:
  assumes "innerTypeMap_get (innerTypeMap st) n = None" and "map_of nm n = None"
  shows "typeDefNamed (Suc depth) env nm n node st =
     Inr (None, push_error (newGQLError (''Type '' @ quoted n @ '' not found.'')
                 (Some [node]) SEVERITY_error) st)"
  using assms by (simp add: typeDefNamed_body_def)

lemma produceType_unknown_name:
  assumes "innerTypeMap_get (innerTypeMap st) (name_value (nt_name (getNamedTypeNode typeNode)))
      = None"
    and "map_of nm (name_value (nt_name (getNamedTypeNode typeNode))) = None"
    and "no_nested_nonnull typeNode"
    and "placeholder_class env k \<noteq> NotAType \<or> modifiers typeNode = []"
  shows "produceType env (typeDefNamed (Suc depth) env nm) typeNode (Named (Placeholder k)) st =
     Inr (apply_modifiers (modifiers typeNode) (Named (Placeholder k)),
          push_error (newGQLError
            (''Type '' @ quoted (name_value (nt_name (getNamedTypeNode typeNode))) @
             '' not found.'')
            (Some [NamedTypeNode (getNamedTypeNode typeNode)]) SEVERITY_error) st)"
  using assms
  by (simp add: produceType_def Let_def typeDefNamed_not_found buildWrappedType_modifiers
      isType_def del: typeDefNamed.simps)

text \<open>
  Claim C6 fails on a field of type \<open>constructor\<close>, a name with no definition that is no
  built-in type: \<open>innerTypeMap[typeName]\<close> finds the member inherited from
  \<open>Object.prototype\<close>, so no <<not found>> diagnostic is made and no placeholder is
  put in; the field's type is the inherited member, and the only diagnostic is
  <<Expected Output type.>>
\<close>

theorem inherited_name_resolves:
  "(case buildASTSchema 1 reference_env inherited_name_document of
      Inl e \<Rightarrow> False
    | Inr (schema, errs) \<Rightarrow>
        map message errs = [''Expected Output type.''] \<and>
        (case schema_store schema of
           [GraphQLObjectType n d desc (Forced [(f, fd)]) is] \<Rightarrow>
             fd_type fd = Named (Inherited ''constructor'')
         | other \<Rightarrow> False))"
  by code_simp

section \<open>Mutual recursion\<close>

lemma innerTypeMap_get_initial:
  "n \<notin> set builtin_type_names \<Longrightarrow> n \<notin> set Object_prototype_keys \<Longrightarrow>
   innerTypeMap_get initial_innerTypeMap n = None"
  by (auto simp: innerTypeMap_get_def initial_innerTypeMap_def map_of_eq_None_iff image_iff
      split: option.splits)

lemma innerTypeMap_get_obj_set:
  "innerTypeMap_get (obj_set k r m) n =
     (if n = k then Some r else innerTypeMap_get m n)"
  by (simp add: innerTypeMap_get_def map_of_obj_set)

lemma typeDefNamed_hit:
  "innerTypeMap_get (innerTypeMap st) n = Some r \<Longrightarrow>
   typeDefNamed (Suc depth) env nm n node st = Inr (Some r, st)"
  by (simp add: typeDefNamed_body_def)

lemma typeDefNamed_object:
  assumes "innerTypeMap_get (innerTypeMap st) n = None"
    and "map_of nm n = Some (ObjectTypeDefinition nn ifs fs l)"
  shows "typeDefNamed (Suc depth) env nm n node st =
     Inr (Some (Instance (length (store st))),
          st\<lparr>store := store st @
                 [GraphQLObjectType (name_value nn) (Some (ObjectTypeDefinition nn ifs fs l))
                    (getDescription l) Deferred Deferred],
             innerTypeMap := obj_set n (Instance (length (store st))) (innerTypeMap st)\<rparr>)"
  using assms by (simp add: typeDefNamed_body_def makeTypeDef_def alloc_def)

lemma root_type_object:
  assumes "truthy x \<longrightarrow>
      (\<exists>d i. map_of nm (the x) = Some d \<and> name_value (def_name d) = the x \<and>
         innerTypeMap_get (innerTypeMap st) (the x) = Some (Instance i) \<and>
         i < length (store st) \<and> class_of_instance (store st ! i) = ObjectClass)"
  shows "root_type env (typeDefNamed (Suc depth) env nm) nm x st =
     Inr (if truthy x then innerTypeMap_get (innerTypeMap st) (the x) else None, st)"
proof (cases "truthy x")
  case False
  then show ?thesis by (simp add: root_type_def)
next
  case True
  with assms obtain d i where "map_of nm (the x) = Some d" "name_value (def_name d) = the x"
    "innerTypeMap_get (innerTypeMap st) (the x) = Some (Instance i)"
    "i < length (store st)" "class_of_instance (store st ! i) = ObjectClass"
    by auto
  with True show ?thesis
    by (simp add: root_type_def getObjectType_def typeDefNamed_hit del: typeDefNamed.simps)
qed

lemma force_object_fields:
  assumes "a < length (store st)"
    and "store st ! a = GraphQLObjectType n (Some (ObjectTypeDefinition nn None
           [\<lparr>f_name = fname, f_arguments = [], f_type = NamedType tr, f_directives = None,
             f_loc = fl\<rparr>] l)) desc Deferred Deferred"
    and "innerTypeMap_get (innerTypeMap st) (name_value (nt_name tr)) = Some (Instance i)"
    and "i < length (store st)" and "class_of_instance (store st ! i) = ObjectClass"
    and "name_value fname \<noteq> ''__proto__''"
  shows "force_instance env (typeDefNamed (Suc depth) env nm) a st =
     Inr ((), st\<lparr>store := (store st)[a :=
        GraphQLObjectType n (Some (ObjectTypeDefinition nn None
           [\<lparr>f_name = fname, f_arguments = [], f_type = NamedType tr, f_directives = None,
             f_loc = fl\<rparr>] l)) desc
          (Forced [(name_value fname,
             \<lparr>fd_type = Named (Instance i),
              fd_node = \<lparr>f_name = fname, f_arguments = [], f_type = NamedType tr,
                         f_directives = None, f_loc = fl\<rparr>,
              fd_description = getDescription fl, fd_args = [],
              fd_deprecationReason = JSNull\<rparr>)])
          (Forced None)]\<rparr>)"
  using assms
  by (simp add: force_instance_def force_thunk_def makeFieldDefMap_def
      makeImplementedInterfaces_def produceOutputType_def produceType_def typeDefNamed_hit
      isOutputType_def makeInputValues_def getDeprecationReason_def keyValMap_def
      del: typeDefNamed.simps)


text \<open>
  Claim C7.  For \<open>type A { b: B }\<close> and \<open>type B { a: A }\<close> (any two different names
  of types that are neither built-in type names nor members of \<open>Object.prototype\<close>,
  and any names of fields other than \<open>__proto__\<close>, which \<open>keyValMap\<close> does not make
  a key), any parameters and any room of the call stack of at least one activation, the
  build returns; the schema holds exactly two objects, named \<open>A\<close> and \<open>B\<close>, at the addresses
  0 and 1; the type of \<open>A\<close>'s field is the object at address 1, the one the list
  \<open>types\<close> holds for \<open>B\<close>, and the type of \<open>B\<close>'s field is the object at address
  0; no two objects of the schema have the same name.
\<close>

theorem mutual_recursion_shares_instances:
  assumes "A \<noteq> B"
    and "A \<notin> set builtin_type_names \<union> set Object_prototype_keys"
    and "B \<notin> set builtin_type_names \<union> set Object_prototype_keys"
    and "a \<noteq> ''__proto__''" and "b \<noteq> ''__proto__''"
  shows "\<exists>schema errs fdA fdB dA dB.
     buildASTSchema (Suc depth) env (mutual_recursion_document A b B a) = Inr (schema, errs)
     \<and> schema_store schema =
         [GraphQLObjectType A (Some dA) None (Forced [(b, fdA)]) (Forced None),
          GraphQLObjectType B (Some dB) None (Forced [(a, fdB)]) (Forced None)]
     \<and> fd_type fdA = Named (Instance 1) \<and> fd_type fdB = Named (Instance 0)
     \<and> take 2 (types schema) = [Instance 0, Instance 1]
     \<and> distinct (map type_name (schema_store schema))"
proof -
  define fA where "fA = plain_field b (NamedType (type_ref B))"
  define fB where "fB = plain_field a (NamedType (type_ref A))"
  define dA where "dA = ObjectTypeDefinition (name_of A) None [fA] None"
  define dB where "dB = ObjectTypeDefinition (name_of B) None [fB] None"
  define nm where "nm = [(A, dA), (B, dB)]"
  define oA where "oA = GraphQLObjectType A (Some dA) None Deferred Deferred"
  define oB where "oB = GraphQLObjectType B (Some dB) None Deferred Deferred"
  define cache where "cache = obj_set B (Instance 1) (obj_set A (Instance 0) initial_innerTypeMap)"
  define fdA where "fdA = \<lparr>fd_type = Named (Instance 1), fd_node = fA, fd_description = None,
      fd_args = [], fd_deprecationReason = JSNull\<rparr>"
  define fdB where "fdB = \<lparr>fd_type = Named (Instance 0), fd_node = fB, fd_description = None,
      fd_args = [], fd_deprecationReason = JSNull\<rparr>"
  define oA' where "oA' = GraphQLObjectType A (Some dA) None (Forced [(b, fdA)]) (Forced None)"
  define oB' where "oB' = GraphQLObjectType B (Some dB) None (Forced [(a, fdB)]) (Forced None)"
  let ?rec = "typeDefNamed (Suc depth) env nm"
  let ?p = "scan_definitions [TypeDefinition dA, TypeDefinition dB]"
  have scan: "?p = \<lparr>schemaDef = None, scanned_errors = [], typeDefs = [dA, dB], nodeMap = nm,
      nodeMapWithAllReferences = [(A, [dA]), (B, [dB])], directiveDefs = []\<rparr>"
    using assms(1)
    by (simp add: scan_definitions_def empty_partition_def Let_def dA_def dB_def name_of_def
        nm_def)
  obtain q m s where names: "operation_type_names ?p = (q, m, s)"
    by (cases "operation_type_names ?p")
  have getA: "innerTypeMap_get cache A = Some (Instance 0)"
    and getB: "innerTypeMap_get cache B = Some (Instance 1)"
    using assms(1) by (simp_all add: cache_def innerTypeMap_get_obj_set)
  have in_nm: "\<exists>d i. map_of nm k = Some d \<and> name_value (def_name d) = k \<and>
        innerTypeMap_get cache k = Some (Instance i) \<and>
        i < length [x, y] \<and> class_of_instance ([x, y] ! i) = ObjectClass"
    if "map_of nm k \<noteq> None" and "class_of_instance x = ObjectClass"
      and "class_of_instance y = ObjectClass" for k x y
    using that getA getB
    by (auto simp: nm_def dA_def dB_def name_of_def split: if_splits)
  have roots: "truthy x \<longrightarrow> map_of nm (the x) \<noteq> None" if "x \<in> {q, m, s}" for x
    using that names by (auto simp: operation_type_names_def scan truthy_def split: if_splits)
  have phase1: "map_res (\<lambda>d. ?rec (name_value (def_name d)) (TypeDefNode d)) [dA, dB]
        \<lparr>errors = E, innerTypeMap = initial_innerTypeMap, store = []\<rparr> =
      Inr ([Some (Instance 0), Some (Instance 1)],
           \<lparr>errors = E, innerTypeMap = cache, store = [oA, oB]\<rparr>)" for E
  proof -
    have 1: "?rec A (TypeDefNode dA)
          \<lparr>errors = E, innerTypeMap = initial_innerTypeMap, store = []\<rparr> =
        Inr (Some (Instance 0),
          \<lparr>errors = E, innerTypeMap = obj_set A (Instance 0) initial_innerTypeMap,
           store = [oA]\<rparr>)"
      using typeDefNamed_object[of "\<lparr>errors = E, innerTypeMap = initial_innerTypeMap,
          store = []\<rparr>" A nm "name_of A" None "[fA]" None depth env "TypeDefNode dA"]
        assms(2)
      by (simp add: innerTypeMap_get_initial nm_def dA_def oA_def name_of_def getDescription_def
          del: typeDefNamed.simps)
    have 2: "?rec B (TypeDefNode dB)
          \<lparr>errors = E, innerTypeMap = obj_set A (Instance 0) initial_innerTypeMap,
           store = [oA]\<rparr> =
        Inr (Some (Instance 1), \<lparr>errors = E, innerTypeMap = cache, store = [oA, oB]\<rparr>)"
      using typeDefNamed_object[of "\<lparr>errors = E,
          innerTypeMap = obj_set A (Instance 0) initial_innerTypeMap, store = [oA]\<rparr>"
          B nm "name_of B" None "[fB]" None depth env "TypeDefNode dB"]
        assms(1,3)
      by (simp add: innerTypeMap_get_initial innerTypeMap_get_obj_set nm_def dB_def oB_def
          name_of_def getDescription_def cache_def del: typeDefNamed.simps)
    show ?thesis
      using 1 2 by (simp add: dA_def[symmetric] dB_def[symmetric] dA_def[THEN arg_cong, of def_name]
          dB_def[THEN arg_cong, of def_name] name_of_def del: typeDefNamed.simps)
  qed
  have root: "root_type env ?rec nm x \<lparr>errors = E, innerTypeMap = cache, store = [oA, oB]\<rparr>
      = Inr (if truthy x then innerTypeMap_get cache (the x) else None,
             \<lparr>errors = E, innerTypeMap = cache, store = [oA, oB]\<rparr>)"
    if "x \<in> {q, m, s}" for x E
    using roots[OF that] in_nm[of "the x" oA oB]
      root_type_object[of x nm "\<lparr>errors = E, innerTypeMap = cache, store = [oA, oB]\<rparr>"
        env depth]
    by (auto simp: oA_def oB_def simp del: typeDefNamed.simps)
  have force: "force_all env ?rec [0, Suc 0] \<lparr>errors = E, innerTypeMap = cache, store = [oA, oB]\<rparr>
      = Inr ((), \<lparr>errors = E, innerTypeMap = cache, store = [oA', oB']\<rparr>)" for E
  proof -
    have 1: "force_instance env ?rec 0 \<lparr>errors = E, innerTypeMap = cache, store = [oA, oB]\<rparr>
        = Inr ((), \<lparr>errors = E, innerTypeMap = cache, store = [oA', oB]\<rparr>)"
      using force_object_fields[of 0 "\<lparr>errors = E, innerTypeMap = cache, store = [oA, oB]\<rparr>"
          A "name_of A" "name_of b" "type_ref B" None None None 1 env depth nm] getB
        assms(5)
      by (simp add: oA_def oA'_def oB_def dA_def fA_def fdA_def plain_field_def type_ref_def
          name_of_def getDescription_def del: typeDefNamed.simps)
    have 2: "force_instance env ?rec 1 \<lparr>errors = E, innerTypeMap = cache, store = [oA', oB]\<rparr>
        = Inr ((), \<lparr>errors = E, innerTypeMap = cache, store = [oA', oB']\<rparr>)"
      using force_object_fields[of 1 "\<lparr>errors = E, innerTypeMap = cache, store = [oA', oB]\<rparr>"
          B "name_of B" "name_of a" "type_ref A" None None None 0 env depth nm] getA
        assms(4)
      by (simp add: oA'_def oB_def oB'_def dB_def fB_def fdB_def plain_field_def type_ref_def
          name_of_def getDescription_def del: typeDefNamed.simps)
    show ?thesis using 1 2 by (simp del: typeDefNamed.simps)
  qed
  define E where "E = (if \<not> truthy q then [missing_query_diagnostic] else [])"
  define qr where "qr = (if truthy q then innerTypeMap_get cache (the q) else None)"
  define mr where "mr = (if truthy m then innerTypeMap_get cache (the m) else None)"
  define sr where "sr = (if truthy s then innerTypeMap_get cache (the s) else None)"
  let ?config = "\<lparr>query = qr, mutation = mr, subscription = sr,
      types = [Instance 0, Instance 1] @
        map Builtin [''String'', ''Int'', ''Float'', ''Boolean'', ''ID''],
      directives = add_specified_directives [], config_nodeMap = nm\<rparr>"
  let ?schema = "\<lparr>query = qr, mutation = mr, subscription = sr,
      types = [Instance 0, Instance 1] @
        map Builtin [''String'', ''Int'', ''Float'', ''Boolean'', ''ID''],
      directives = add_specified_directives [], config_nodeMap = nm,
      schema_store = [oA', oB'],
      schema_errors = GraphQLSchema_errors env ?config [oA', oB']\<rparr>"
  have parts: "typeDefs ?p = [dA, dB]" "nodeMap ?p = nm" "scanned_errors ?p = []"
    "nodeMapWithAllReferences ?p = [(A, [dA]), (B, [dB])]" "directiveDefs ?p = []"
    by (simp_all add: scan)
  have E: "(if \<not> truthy q then [missing_query_diagnostic] else []) = E"
    by (simp add: E_def)
  have upt2: "[0 ..< length [oA, oB]] = [0, 1]"
    by (simp add: upt_rec)
  have "buildASTSchema (Suc depth) env (mutual_recursion_document A b B a) =
      Inr (?schema, E @ schema_errors ?schema)"
    by (simp add: buildASTSchema_def mutual_recursion_document_def fA_def[symmetric]
        fB_def[symmetric] dA_def[symmetric] dB_def[symmetric] parts names Let_def
        duplicate_name_errors_def missing_query_diagnostic_def[symmetric] E
        GraphQLSchema_def phase1 root force qr_def[symmetric] mr_def[symmetric]
        sr_def[symmetric]
        del: typeDefNamed.simps map_res.simps(2) force_all.simps
        split del: if_split cong: if_cong)
  moreover have "distinct (map type_name [oA', oB'])"
    using assms(1) by (simp add: oA'_def oB'_def)
  ultimately show ?thesis
    by (intro exI[of _ ?schema] exI[of _ "E @ schema_errors ?schema"] exI[of _ fdA]
        exI[of _ fdB] exI[of _ dA] exI[of _ dB])
      (simp add: oA'_def oB'_def fdA_def fdB_def)
qed

theorem mutual_recursion_shares_instances_witness:
  "\<exists>schema errs fdA fdB dA dB.
     buildASTSchema 1 reference_env (mutual_recursion_document ''A'' ''b'' ''B'' ''a'') =
       Inr (schema, errs)
     \<and> schema_store schema =
         [GraphQLObjectType ''A'' (Some dA) None (Forced [(''b'', fdA)]) (Forced None),
          GraphQLObjectType ''B'' (Some dB) None (Forced [(''a'', fdB)]) (Forced None)]
     \<and> fd_type fdA = Named (Instance 1) \<and> fd_type fdB = Named (Instance 0)
     \<and> take 2 (types schema) = [Instance 0, Instance 1]
     \<and> distinct (map type_name (schema_store schema))"
  using mutual_recursion_shares_instances[where A = "''A''" and B = "''B''" and a = "''a''"
      and b = "''b''" and depth = 0 and env = reference_env]
  by (simp add: builtin_type_names_def Object_prototype_keys_def)

end
